theory Spec2Isabelle
  imports Main "HOL-Library.Word"
begin

unbundle bit_operations_syntax

section \<open>Values of the JavaScript runtime\<close>

text \<open>
  The two source files are TypeScript. A byte of an \<^verbatim>\<open>ArrayBuffer\<close> is an 8-bit word.
  A number read by \<^verbatim>\<open>getFloat64\<close> is kept as its IEEE-754 bit pattern: the code under
  study moves such numbers around and hands them to the projection library, it never
  computes with them. Integral numbers (indices, counts, codes) are \<open>int\<close>. A JavaScript
  string is its list of UTF-16 code units.
\<close>

type_synonym byte = "8 word"
type_synonym float64 = "64 word"
type_synonym jsstring = "16 word list"

text \<open>
  Every \<^verbatim>\<open>throw\<close> site of the two files is one constructor; the values interpolated
  into its message are the constructor's arguments.
  \<^item> \<open>RangeError\<close>: a \<^verbatim>\<open>DataView\<close> read outside the buffer, or a typed array of
    negative length;
  \<^item> \<open>UnknownFileCode c\<close>: \<^verbatim>\<open>Unknown file code: ${fileCode}\<close>;
  \<^item> \<open>ShapeTypeNotSupported c name\<close>: \<^verbatim>\<open>Shape type not supported: ${shapeType} (${name})\<close>;
  \<^item> \<open>UnknownShapeType at c\<close>: \<^verbatim>\<open>Unknown shape type at ${idx - 4}: ${shapeType}\<close>;
  \<^item> \<open>ShapeParsingError e n\<close>: \<^verbatim>\<open>Shape parsing error: ${e.message} (record ${number})\<close>;
  \<^item> \<open>UnsupportedShapeType c\<close>: \<^verbatim>\<open>Unsupported shape type: ${type}\<close> of \<^verbatim>\<open>toGeojson\<close>;
  \<^item> \<open>CoordinatesNotFinite\<close>: the \<^verbatim>\<open>TypeError\<close> of the projection library for a
    coordinate that is not a finite number;
  \<^item> \<open>ProjectionError\<close>: any other failure of the projection library.
\<close>

datatype error =
    RangeError
  | UnknownFileCode int
  | ShapeTypeNotSupported int string
  | UnknownShapeType int int
  | ShapeParsingError error int
  | UnsupportedShapeType int
  | CoordinatesNotFinite
  | ProjectionError

definition thenE :: "error + 'a \<Rightarrow> ('a \<Rightarrow> error + 'b) \<Rightarrow> error + 'b" where
  "thenE m f = (case m of Inl e \<Rightarrow> Inl e | Inr x \<Rightarrow> f x)"

subsection \<open>DataView\<close>

definition word16le :: "byte list \<Rightarrow> 16 word" where
  "word16le bs = ucast (bs ! 0) OR push_bit 8 (ucast (bs ! 1))"

definition word32le :: "byte list \<Rightarrow> 32 word" where
  "word32le bs =
     ucast (bs ! 0) OR push_bit 8 (ucast (bs ! 1)) OR
     push_bit 16 (ucast (bs ! 2)) OR push_bit 24 (ucast (bs ! 3))"

definition word64le :: "byte list \<Rightarrow> 64 word" where
  "word64le bs =
     ucast (bs ! 0) OR push_bit 8 (ucast (bs ! 1)) OR
     push_bit 16 (ucast (bs ! 2)) OR push_bit 24 (ucast (bs ! 3)) OR
     push_bit 32 (ucast (bs ! 4)) OR push_bit 40 (ucast (bs ! 5)) OR
     push_bit 48 (ucast (bs ! 6)) OR push_bit 56 (ucast (bs ! 7))"

text \<open>
  \<open>bytesAt dv idx n\<close> is the bounds check every \<^verbatim>\<open>DataView\<close> getter makes: the \<open>n\<close> bytes
  from \<open>idx\<close>, or a \<^verbatim>\<open>RangeError\<close> when they do not all lie in the buffer.
\<close>

definition bytesAt :: "byte list \<Rightarrow> int \<Rightarrow> nat \<Rightarrow> error + byte list" where
  "bytesAt dv idx n =
     (if 0 \<le> idx \<and> idx + int n \<le> int (length dv)
      then Inr (take n (drop (nat idx) dv)) else Inl RangeError)"

definition getUint8 :: "byte list \<Rightarrow> int \<Rightarrow> error + int" where
  "getUint8 dv idx = thenE (bytesAt dv idx 1) (\<lambda>bs. Inr (uint (bs ! 0)))"

definition getInt8 :: "byte list \<Rightarrow> int \<Rightarrow> error + int" where
  "getInt8 dv idx = thenE (bytesAt dv idx 1) (\<lambda>bs. Inr (sint (bs ! 0)))"

definition getInt16 :: "byte list \<Rightarrow> int \<Rightarrow> bool \<Rightarrow> error + int" where
  "getInt16 dv idx littleEndian =
     thenE (bytesAt dv idx 2)
       (\<lambda>bs. Inr (sint (word16le (if littleEndian then bs else rev bs))))"

definition getInt32 :: "byte list \<Rightarrow> int \<Rightarrow> bool \<Rightarrow> error + int" where
  "getInt32 dv idx littleEndian =
     thenE (bytesAt dv idx 4)
       (\<lambda>bs. Inr (sint (word32le (if littleEndian then bs else rev bs))))"

definition getFloat64 :: "byte list \<Rightarrow> int \<Rightarrow> bool \<Rightarrow> error + float64" where
  "getFloat64 dv idx littleEndian =
     thenE (bytesAt dv idx 8)
       (\<lambda>bs. Inr (word64le (if littleEndian then bs else rev bs)))"

section \<open>The shapefile parser (\<^verbatim>\<open>SHPParser\<close> of \<^verbatim>\<open>preprocess.ts\<close>)\<close>

text \<open>
  The three kinds of the tagged union \<^verbatim>\<open>SHPShape\<close>: type 0 without content, type 1 with
  a point, and types 3, 5 and 8 sharing one content layout. In \<open>MultiShape\<close> the arguments
  are \<^verbatim>\<open>type\<close>, then \<^verbatim>\<open>minX, minY, maxX, maxY\<close>, then the \<^verbatim>\<open>Int32Array\<close> \<^verbatim>\<open>parts\<close> and the
  \<^verbatim>\<open>Float64Array\<close> \<^verbatim>\<open>points\<close>.
\<close>

datatype MultiKind = POLYLINE | POLYGON | MULTIPOINT

fun MultiKind_code :: "MultiKind \<Rightarrow> int" where
  "MultiKind_code POLYLINE = 3"
| "MultiKind_code POLYGON = 5"
| "MultiKind_code MULTIPOINT = 8"

datatype SHPShape =
    NullShape
  | PointShape float64 float64
  | MultiShape MultiKind float64 float64 float64 float64 "32 word list" "float64 list"

fun shapeTypeOf :: "SHPShape \<Rightarrow> int" where
  "shapeTypeOf NullShape = 0"
| "shapeTypeOf (PointShape x y) = 1"
| "shapeTypeOf (MultiShape k a b c d ps pts) = MultiKind_code k"

text \<open>\<^verbatim>\<open>SHPRecord\<close>; its field \<^verbatim>\<open>length\<close> is \<open>rlength\<close> here.\<close>

record SHPRecord =
  number :: int
  rlength :: int
  shape :: SHPShape

record SHPFile =
  fileName :: jsstring
  fileCode :: int
  wordLength :: int
  byteLength :: int
  version :: int
  shapeType :: int
  minX :: float64
  minY :: float64
  maxX :: float64
  maxY :: float64
  minZ :: float64
  maxZ :: float64
  minM :: float64
  maxM :: float64
  records :: "SHPRecord list"

text \<open>The reverse mapping of the numeric enum \<^verbatim>\<open>NotSupportedShapeType\<close>.\<close>

definition NotSupportedShapeType :: "int \<Rightarrow> string option" where
  "NotSupportedShapeType c =
     (if c = 11 then Some ''PointZ''
      else if c = 13 then Some ''PolylineZ''
      else if c = 15 then Some ''PolygonZ''
      else if c = 18 then Some ''MultiPointZ''
      else if c = 21 then Some ''PointM''
      else if c = 23 then Some ''PolylineM''
      else if c = 25 then Some ''PolygonM''
      else if c = 28 then Some ''MultiPointM''
      else if c = 31 then Some ''MultiPatch''
      else None)"

text \<open>
  The two read loops of \<^verbatim>\<open>parseShape\<close>: \<open>n\<close> consecutive little-endian values from
  \<open>idx\<close>, stored into the typed array.
\<close>

fun readParts :: "byte list \<Rightarrow> int \<Rightarrow> nat \<Rightarrow> error + 32 word list" where
  "readParts dv idx 0 = Inr []"
| "readParts dv idx (Suc n) =
     thenE (getInt32 dv idx True) (\<lambda>v.
     thenE (readParts dv (idx + 4) n) (\<lambda>vs. Inr (word_of_int v # vs)))"

fun readPoints :: "byte list \<Rightarrow> int \<Rightarrow> nat \<Rightarrow> error + float64 list" where
  "readPoints dv idx 0 = Inr []"
| "readPoints dv idx (Suc n) =
     thenE (getFloat64 dv idx True) (\<lambda>v.
     thenE (readPoints dv (idx + 8) n) (\<lambda>vs. Inr (v # vs)))"

definition parseMulti :: "MultiKind \<Rightarrow> byte list \<Rightarrow> int \<Rightarrow> error + SHPShape" where
  "parseMulti k dv idx =
     thenE (getFloat64 dv idx True) (\<lambda>minX.
     thenE (getFloat64 dv (idx + 8) True) (\<lambda>minY.
     thenE (getFloat64 dv (idx + 16) True) (\<lambda>maxX.
     thenE (getFloat64 dv (idx + 24) True) (\<lambda>maxY.
     thenE (getInt32 dv (idx + 32) True) (\<lambda>partCount.
     thenE (getInt32 dv (idx + 36) True) (\<lambda>pointCount.
     if partCount < 0 then Inl RangeError
     else thenE (readParts dv (idx + 40) (nat partCount)) (\<lambda>parts.
     if pointCount * 2 < 0 then Inl RangeError
     else thenE (readPoints dv (idx + 40 + 4 * partCount) (nat (pointCount * 2))) (\<lambda>points.
     Inr (MultiShape k minX minY maxX maxY parts points)))))))))"

text \<open>
  \<^verbatim>\<open>parseShape(dv, idx, length)\<close>. The source adds 4 to \<open>idx\<close> after reading the type, so
  the payload starts at \<open>idx + 4\<close> and the position reported for an unknown type,
  \<^verbatim>\<open>idx - 4\<close>, is the \<open>idx\<close> of the call.
\<close>

definition parseShape :: "byte list \<Rightarrow> int \<Rightarrow> int \<Rightarrow> error + SHPShape" where
  "parseShape dv idx len =
     thenE (getInt32 dv idx True) (\<lambda>shapeType.
     if shapeType = 0 then Inr NullShape
     else if shapeType = 1 then
       thenE (getFloat64 dv (idx + 4) True) (\<lambda>x.
       thenE (getFloat64 dv (idx + 4 + 8) True) (\<lambda>y. Inr (PointShape x y)))
     else if shapeType = 8 then parseMulti MULTIPOINT dv (idx + 4)
     else if shapeType = 3 then parseMulti POLYLINE dv (idx + 4)
     else if shapeType = 5 then parseMulti POLYGON dv (idx + 4)
     else if shapeType \<in> {11, 13, 15, 18, 21, 23, 25, 28, 31} then
       Inl (ShapeTypeNotSupported shapeType
             (case NotSupportedShapeType shapeType of Some n \<Rightarrow> n | None \<Rightarrow> ''Unknown''))
     else Inl (UnknownShapeType idx shapeType))"

text \<open>
  The record loop of \<^verbatim>\<open>SHPParser.parse\<close>. The content length is a signed number read
  from the file, so \<^verbatim>\<open>idx += length * 2\<close> can move the cursor backwards and the loop need
  not end: the result is an \<open>option\<close>, and \<open>None\<close> is a run that never returns. An error
  of \<^verbatim>\<open>parseShape\<close> is rethrown with the record number; the two header reads are
  outside the \<^verbatim>\<open>try\<close>.
\<close>

partial_function (option) parseRecords ::
  "byte list \<Rightarrow> int \<Rightarrow> int \<Rightarrow> SHPRecord list \<Rightarrow> (error + SHPRecord list) option" where
  "parseRecords dv byteLen idx recs =
     (if idx < byteLen then
        (case getInt32 dv idx False of
           Inl e \<Rightarrow> Some (Inl e)
         | Inr num \<Rightarrow>
            (case getInt32 dv (idx + 4) False of
               Inl e \<Rightarrow> Some (Inl e)
             | Inr len \<Rightarrow>
                (case parseShape dv (idx + 8) len of
                   Inl e \<Rightarrow> Some (Inl (ShapeParsingError e num))
                 | Inr s \<Rightarrow>
                     parseRecords dv byteLen (idx + 8 + len * 2)
                       (recs @ [\<lparr>number = num, rlength = len, shape = s\<rparr>]))))
      else Some (Inr recs))"

text \<open>The header reads of \<^verbatim>\<open>SHPParser.parse\<close> after the file code, at bytes 24 to 99.\<close>

definition parseHeader :: "byte list \<Rightarrow> jsstring \<Rightarrow> int \<Rightarrow> error + SHPFile" where
  "parseHeader dv url code =
     thenE (getInt32 dv 24 False) (\<lambda>wl.
     thenE (getInt32 dv 28 True) (\<lambda>ver.
     thenE (getInt32 dv 32 True) (\<lambda>st.
     thenE (getFloat64 dv 36 True) (\<lambda>x0.
     thenE (getFloat64 dv (36 + 8) True) (\<lambda>y0.
     thenE (getFloat64 dv (36 + 16) True) (\<lambda>x1.
     thenE (getFloat64 dv (36 + 24) True) (\<lambda>y1.
     thenE (getFloat64 dv (36 + 32) True) (\<lambda>z0.
     thenE (getFloat64 dv (36 + 40) True) (\<lambda>z1.
     thenE (getFloat64 dv (36 + 48) True) (\<lambda>m0.
     thenE (getFloat64 dv (36 + 56) True) (\<lambda>m1.
     Inr \<lparr>fileName = url, fileCode = code, wordLength = wl, byteLength = wl * 2,
          version = ver, shapeType = st, minX = x0, minY = y0, maxX = x1, maxY = y1,
          minZ = z0, maxZ = z1, minM = m0, maxM = m1, records = []\<rparr>)))))))))))"

text \<open>\<^verbatim>\<open>SHPParser.parse(arrayBuffer, url)\<close>.\<close>

definition SHPParser_parse :: "byte list \<Rightarrow> jsstring \<Rightarrow> (error + SHPFile) option" where
  "SHPParser_parse dv url =
     (case getInt32 dv 0 False of
        Inl e \<Rightarrow> Some (Inl e)
      | Inr code \<Rightarrow>
          if code \<noteq> 0x270a then Some (Inl (UnknownFileCode code))
          else
            (case parseHeader dv url code of
               Inl e \<Rightarrow> Some (Inl e)
             | Inr shpFile \<Rightarrow>
                 map_option (map_sum id (\<lambda>recs. shpFile\<lparr>records := recs\<rparr>))
                   (parseRecords dv (byteLength shpFile) 100 [])))"

section \<open>The attribute-table parser (\<^verbatim>\<open>DBFParser\<close> of \<^verbatim>\<open>preprocess.ts\<close>)\<close>

text \<open>
  A value of an attribute record: the trimmed text, or \<^verbatim>\<open>parseFloat\<close> of it when it matches
  the scientific-notation pattern. The number is kept as the text it is parsed from.
\<close>

datatype DBFValue = StringValue jsstring | NumberValue jsstring

text \<open>
  \<^verbatim>\<open>DBFField\<close>. \<open>name\<close> is \<open>None\<close> where \<^verbatim>\<open>charString[nameIndex++]\<close> reads past the end
  of the array (\<^verbatim>\<open>undefined\<close>); the field \<^verbatim>\<open>type\<close>, one character, is \<open>ftype\<close>.
\<close>

record DBFField =
  name :: "jsstring option"
  ftype :: jsstring
  fieldLength :: int
  workAreaId :: int
  setFieldFlag :: int
  indexFieldFlag :: int

text \<open>
  \<^verbatim>\<open>DBFFile\<close>; \<^verbatim>\<open>fileName\<close>, \<^verbatim>\<open>version\<close>, \<^verbatim>\<open>fields\<close> and \<^verbatim>\<open>records\<close> carry the prefix
  \<open>dbf\<close>. An
  attribute record is an object: a map from property keys to values.
\<close>

record DBFFile =
  dbfFileName :: jsstring
  dbfVersion :: int
  year :: int
  month :: int
  day :: int
  numberOfRecords :: int
  bytesInHeader :: int
  bytesInRecord :: int
  incompleteTransation :: int
  encryptionFlag :: int
  mdxFlag :: int
  languageDriverId :: int
  dbfFields :: "DBFField list"
  fieldpos :: int
  dbfRecords :: "(jsstring \<rightharpoonup> DBFValue) list"

subsection \<open>String operations\<close>

text \<open>\<^verbatim>\<open>/big5/i.test(encoding)\<close>: the letters in either case, anywhere in the string.\<close>

fun testBig5 :: "jsstring \<Rightarrow> bool" where
  "testBig5 [] = False"
| "testBig5 (c # cs) =
     ((case c # cs of
         b # i # g # f # _ \<Rightarrow>
           (b = 0x62 \<or> b = 0x42) \<and> (i = 0x69 \<or> i = 0x49) \<and> (g = 0x67 \<or> g = 0x47) \<and> f = 0x35
       | _ \<Rightarrow> False)
      \<or> testBig5 cs)"

text \<open>\<^verbatim>\<open>s.split("\r")\<close> and \<^verbatim>\<open>parts.join("\r")\<close>; the carriage return is code unit 13.\<close>

fun splitCR :: "jsstring \<Rightarrow> jsstring list" where
  "splitCR [] = [[]]"
| "splitCR (c # cs) =
     (if c = 0x0D then [] # splitCR cs
      else (case splitCR cs of p # ps \<Rightarrow> (c # p) # ps | [] \<Rightarrow> [[c]]))"

fun joinCR :: "jsstring list \<Rightarrow> jsstring" where
  "joinCR [] = []"
| "joinCR [p] = p"
| "joinCR (p # q # ps) = p @ [0x0D] @ joinCR (q # ps)"

text \<open>\<^verbatim>\<open>s.replace(/\0/g, "")\<close>.\<close>

definition removeNUL :: "jsstring \<Rightarrow> jsstring" where
  "removeNUL s = filter (\<lambda>c. c \<noteq> 0) s"

text \<open>\<^verbatim>\<open>s.trim()\<close>: the white space and line terminators of ECMAScript.\<close>

definition isWhiteSpace :: "16 word \<Rightarrow> bool" where
  "isWhiteSpace c \<longleftrightarrow>
     c = 0x09 \<or> c = 0x0A \<or> c = 0x0B \<or> c = 0x0C \<or> c = 0x0D \<or> c = 0x20 \<or> c = 0xA0 \<or>
     c = 0x1680 \<or> (0x2000 \<le> c \<and> c \<le> 0x200A) \<or> c = 0x2028 \<or> c = 0x2029 \<or>
     c = 0x202F \<or> c = 0x205F \<or> c = 0x3000 \<or> c = 0xFEFF"

definition trim :: "jsstring \<Rightarrow> jsstring" where
  "trim s = rev (dropWhile isWhiteSpace (rev (dropWhile isWhiteSpace s)))"

text \<open>\<^verbatim>\<open>/^\d\.\d{11}e\+\d{3}$/i.test(s)\<close>.\<close>

definition isDigit :: "16 word \<Rightarrow> bool" where
  "isDigit c \<longleftrightarrow> 0x30 \<le> c \<and> c \<le> 0x39"

definition testScientific :: "jsstring \<Rightarrow> bool" where
  "testScientific s \<longleftrightarrow>
     length s = 18 \<and> isDigit (s ! 0) \<and> s ! 1 = 0x2E \<and>
     list_all isDigit (take 11 (drop 2 s)) \<and>
     (s ! 13 = 0x65 \<or> s ! 13 = 0x45) \<and> s ! 14 = 0x2B \<and>
     list_all isDigit (drop 15 s)"

subsection \<open>The byte-width estimate\<close>

text \<open>
  \<^verbatim>\<open>encodeURIComponent\<close> of a string of one code unit leaves the unreserved characters
  (letters, digits and \<^verbatim>\<open>- _ . ! ~ * ' ( )\<close>) as they are and escapes any other as the
  bytes of its UTF-8 encoding, one \<^verbatim>\<open>%XX\<close> group each; a lone surrogate raises
  \<^verbatim>\<open>URIError\<close>. \<open>escapeGroups c\<close> is the number of groups, \<open>None\<close> for the exception.
\<close>

definition isUnreserved :: "16 word \<Rightarrow> bool" where
  "isUnreserved c \<longleftrightarrow>
     (0x41 \<le> c \<and> c \<le> 0x5A) \<or> (0x61 \<le> c \<and> c \<le> 0x7A) \<or> (0x30 \<le> c \<and> c \<le> 0x39) \<or>
     c = 0x2D \<or> c = 0x5F \<or> c = 0x2E \<or> c = 0x21 \<or> c = 0x7E \<or> c = 0x2A \<or>
     c = 0x27 \<or> c = 0x28 \<or> c = 0x29"

definition escapeGroups :: "16 word \<Rightarrow> nat option" where
  "escapeGroups c =
     (if 0xD800 \<le> c \<and> c \<le> 0xDFFF then None
      else if isUnreserved c then Some 0
      else if c < 0x80 then Some 1
      else if c < 0x800 then Some 2
      else Some 3)"

text \<open>
  One step of the walk adds to \<open>count\<close>: \<open>offset\<close> when the match has more than one
  group, 1 otherwise. Past the end of the string \<^verbatim>\<open>s[z]\<close> is \<^verbatim>\<open>undefined\<close>, which encodes
  as the text \<^verbatim>\<open>undefined\<close> without any group; the \<^verbatim>\<open>catch\<close> branch adds 1 as well.
\<close>

definition widthAt :: "jsstring \<Rightarrow> nat \<Rightarrow> nat \<Rightarrow> nat" where
  "widthAt s z offset =
     (if z < length s then
        (case escapeGroups (s ! z) of
           None \<Rightarrow> 1
         | Some g \<Rightarrow> if 1 < g then offset else 1)
      else 1)"

text \<open>
  \<^verbatim>\<open>while (count < limit) { count += ...; z++ }\<close> over the string \<open>s\<close>, from \<open>z\<close> and
  \<open>count\<close>; the result is the final \<open>z\<close>.
\<close>

function walk :: "jsstring \<Rightarrow> nat \<Rightarrow> nat \<Rightarrow> nat \<Rightarrow> nat \<Rightarrow> nat" where
  "walk s offset limit z count =
     (if count < limit then walk s offset limit (z + 1) (count + widthAt s z offset) else z)"
  by pat_completeness auto
termination
  by (relation "measure (\<lambda>(s, offset, limit, z, count). (limit - count) + (length s - z))")
     (auto simp: widthAt_def split: option.splits)

declare walk.simps [simp del]

subsection \<open>\<^verbatim>\<open>DBFParser.parse\<close>\<close>

text \<open>
  The response header: with more than two parts the last one is dropped and the others
  joined again; otherwise the first part is taken and \<open>offset\<close> becomes 2. The result is
  the header text and the offset.
\<close>

definition prepareHeader :: "jsstring \<Rightarrow> nat \<Rightarrow> jsstring \<times> nat" where
  "prepareHeader response offset =
     (let responseParts = splitCR response in
      if 2 < length responseParts then (drop 32 (joinCR (butlast responseParts)), offset)
      else (drop 32 (case responseParts of p # _ \<Rightarrow> p | [] \<Rightarrow> []), 2))"

text \<open>
  The loop over the response header that fills \<^verbatim>\<open>charString\<close>. The walk computes \<open>z\<close>;
  the name pushed is \<^verbatim>\<open>responseHeader.slice(0, 10)\<close> without its NUL characters, and the
  header moves on by 32 characters. The result is \<^verbatim>\<open>charString\<close> and the response header
  the loop ends with.
\<close>

function fieldNames :: "jsstring \<Rightarrow> nat \<Rightarrow> jsstring list \<Rightarrow> jsstring list \<times> jsstring" where
  "fieldNames responseHeader offset charString =
     (if 0 < length responseHeader then
        (let z = walk responseHeader offset 10 0 0 in
         fieldNames (drop 32 responseHeader) offset
           (charString @ [removeNUL (take 10 responseHeader)]))
      else (charString, responseHeader))"
  by pat_completeness auto
termination
  by (relation "measure (\<lambda>(responseHeader, offset, charString). length responseHeader)") auto

declare fieldNames.simps [simp del]

text \<open>The ten \<^verbatim>\<open>getUint8\<close> reads that fill \<^verbatim>\<open>nameArray\<close> with the bytes that are not 0.\<close>

fun readNameArray :: "byte list \<Rightarrow> int \<Rightarrow> nat \<Rightarrow> error + int list" where
  "readNameArray dv idx 0 = Inr []"
| "readNameArray dv idx (Suc n) =
     thenE (getUint8 dv idx) (\<lambda>b.
     thenE (readNameArray dv (idx + 1) n) (\<lambda>bs. Inr (if b \<noteq> 0 then b # bs else bs)))"

lemma thenE_cong [fundef_cong]:
  "m = m' \<Longrightarrow> (\<And>x. m' = Inr x \<Longrightarrow> f x = f' x) \<Longrightarrow> thenE m f = thenE m' f'"
  by (auto simp: thenE_def split: sum.splits)

text \<open>
  The loop over the field descriptors, 32 bytes each, from \<open>idx\<close>: the type at byte 11,
  the field length at 16, the work area id at 20, the set-field flag at 23 and the index
  flag at 31. It ends when the byte after a descriptor is \<^verbatim>\<open>0x0D\<close>; the result is the fields
  and the position of that byte.
\<close>

function parseFields ::
  "byte list \<Rightarrow> jsstring list \<Rightarrow> int \<Rightarrow> nat \<Rightarrow> DBFField list \<Rightarrow> error + (DBFField list \<times> int)" where
  "parseFields dv charString idx nameIndex flds =
     thenE (readNameArray dv idx 10) (\<lambda>nameArray.
     thenE (getUint8 dv (idx + 11)) (\<lambda>ty.
     thenE (getUint8 dv (idx + 16)) (\<lambda>fl.
     thenE (getUint8 dv (idx + 20)) (\<lambda>wa.
     thenE (getUint8 dv (idx + 23)) (\<lambda>sf.
     thenE (getUint8 dv (idx + 31)) (\<lambda>ix.
     thenE (getUint8 dv (idx + 32)) (\<lambda>next.
       if next = 0x0D then
         Inr (flds @ [\<lparr>name = (if nameIndex < length charString
                                 then Some (charString ! nameIndex) else None),
                        ftype = [word_of_int ty], fieldLength = fl, workAreaId = wa,
                        setFieldFlag = sf, indexFieldFlag = ix\<rparr>], idx + 32)
       else
         parseFields dv charString (idx + 32) (nameIndex + 1)
           (flds @ [\<lparr>name = (if nameIndex < length charString
                                then Some (charString ! nameIndex) else None),
                      ftype = [word_of_int ty], fieldLength = fl, workAreaId = wa,
                      setFieldFlag = sf, indexFieldFlag = ix\<rparr>]))))))))"
  by pat_completeness auto
termination
  by (relation "measure (\<lambda>(dv, charString, idx, nameIndex, flds). nat (int (length dv) - idx))")
     (auto simp: getUint8_def bytesAt_def thenE_def split: if_splits)

declare parseFields.simps [simp del]

text \<open>The property key of \<^verbatim>\<open>record[field.name]\<close>: the name, or the text \<^verbatim>\<open>undefined\<close>.\<close>

definition propertyKey :: "jsstring option \<Rightarrow> jsstring" where
  "propertyKey n =
     (case n of Some s \<Rightarrow> s
      | None \<Rightarrow> [0x75, 0x6E, 0x64, 0x65, 0x66, 0x69, 0x6E, 0x65, 0x64])"

text \<open>
  \<^verbatim>\<open>record[key] = value\<close> on an object literal, for a string or a number as the value. The
  key \<^verbatim>\<open>__proto__\<close> is the accessor of \<^verbatim>\<open>Object.prototype\<close>, whose setter ignores a value that
  is not an object: nothing is stored. Any other key becomes an own property.
\<close>

definition assignProperty ::
  "(jsstring \<rightharpoonup> DBFValue) \<Rightarrow> jsstring \<Rightarrow> DBFValue \<Rightarrow> (jsstring \<rightharpoonup> DBFValue)" where
  "assignProperty rcd key v =
     (if key = [0x5F, 0x5F, 0x70, 0x72, 0x6F, 0x74, 0x6F, 0x5F, 0x5F] then rcd
      else rcd(key \<mapsto> v))"

text \<open>
  The inner loop of the record body, over the fields. The walk reads \<^verbatim>\<open>responseHeader\<close>,
  the variable the loop over the field names has left behind; the value is cut from
  \<^verbatim>\<open>responseText\<close>. The result is the record and the remaining text.
\<close>

fun parseRecordFields ::
  "jsstring \<Rightarrow> nat \<Rightarrow> DBFField list \<Rightarrow> jsstring \<Rightarrow> (jsstring \<rightharpoonup> DBFValue) \<Rightarrow>
     (jsstring \<rightharpoonup> DBFValue) \<times> jsstring" where
  "parseRecordFields responseHeader offset [] responseText rcd = (rcd, responseText)"
| "parseRecordFields responseHeader offset (field # fs) responseText rcd =
     (let z = walk responseHeader offset (nat (fieldLength field)) 0 0;
          rawValue = trim (removeNUL (take z responseText))
      in parseRecordFields responseHeader offset fs (drop z responseText)
           (assignProperty rcd (propertyKey (name field))
              (if testScientific rawValue then NumberValue rawValue
               else StringValue rawValue)))"

text \<open>
  The outer loop, \<^verbatim>\<open>for (let i = 0; i < dbf.numberOfRecords; i++)\<close>, with \<open>n\<close> iterations
  to go: one character is skipped for the deletion flag, then the fields are read.
\<close>

fun parseRecordsLoop ::
  "jsstring \<Rightarrow> nat \<Rightarrow> DBFField list \<Rightarrow> nat \<Rightarrow> jsstring \<Rightarrow> (jsstring \<rightharpoonup> DBFValue) list \<Rightarrow>
     (jsstring \<rightharpoonup> DBFValue) list" where
  "parseRecordsLoop responseHeader offset flds 0 responseText recs = recs"
| "parseRecordsLoop responseHeader offset flds (Suc n) responseText recs =
     (case parseRecordFields responseHeader offset flds (drop 1 responseText) Map.empty of
        (rcd, responseText') \<Rightarrow>
          parseRecordsLoop responseHeader offset flds n responseText' (recs @ [rcd]))"

text \<open>\<^verbatim>\<open>DBFParser.parse(arrayBuffer, src, response, encoding)\<close>.\<close>

definition DBFParser_parse ::
  "byte list \<Rightarrow> jsstring \<Rightarrow> jsstring \<Rightarrow> jsstring \<Rightarrow> error + DBFFile" where
  "DBFParser_parse dv src response encoding =
     thenE (getInt8 dv 0) (\<lambda>ver.
     thenE (getUint8 dv 1) (\<lambda>y.
     thenE (getUint8 dv 2) (\<lambda>m.
     thenE (getUint8 dv 3) (\<lambda>d.
     thenE (getInt32 dv 4 True) (\<lambda>nrec.
     thenE (getInt16 dv 8 True) (\<lambda>bih.
     thenE (getInt16 dv 10 True) (\<lambda>bir.
     thenE (getUint8 dv 14) (\<lambda>itr.
     thenE (getUint8 dv 15) (\<lambda>enc.
     thenE (getUint8 dv 28) (\<lambda>mdx.
     thenE (getUint8 dv 29) (\<lambda>ldi.
     (case prepareHeader response (if testBig5 encoding then 2 else 3) of
        (responseHeader0, offset) \<Rightarrow>
     (case fieldNames responseHeader0 offset [] of
        (charString, responseHeader) \<Rightarrow>
     thenE (parseFields dv charString 32 0 []) (\<lambda>(flds, idx).
       Inr \<lparr>dbfFileName = src, dbfVersion = ver, year = y + 1900, month = m, day = d,
            numberOfRecords = nrec, bytesInHeader = bih, bytesInRecord = bir,
            incompleteTransation = itr, encryptionFlag = enc, mdxFlag = mdx,
            languageDriverId = ldi, dbfFields = flds, fieldpos = idx + 1,
            dbfRecords =
              parseRecordsLoop responseHeader offset flds (nat nrec)
                (last (splitCR response)) []\<rparr>))))))))))))))"

section \<open>The feature assembler (\<^verbatim>\<open>toGeojson\<close> of \<^verbatim>\<open>preview.ts\<close>)\<close>

text \<open>
  A GeoJSON position \<^verbatim>\<open>[x, y]\<close> is a pair. The constant members \<^verbatim>\<open>type: "Feature"\<close> and
  \<^verbatim>\<open>type: "FeatureCollection"\<close> are left out; \<open>properties\<close> is \<open>None\<close> for \<^verbatim>\<open>undefined\<close>.
\<close>

type_synonym position = "float64 \<times> float64"

datatype Geometry =
    Point position
  | LineString "position list"
  | MultiPoint "position list"
  | Polygon "position list list"

record Feature =
  geometry :: Geometry
  properties :: "(jsstring \<rightharpoonup> DBFValue) option"

record FeatureCollection =
  bbox :: "float64 list"
  features :: "Feature list"

text \<open>
  The projection library is outside the repository's own code: the call
  \<^verbatim>\<open>proj4(EPSGUser, EPSG4326, [x, y])\<close> on two numbers is a parameter of the model, a function
  that returns the pair \<^verbatim>\<open>[lon, lat]\<close> or fails.
\<close>

type_synonym projection = "float64 \<Rightarrow> float64 \<Rightarrow> error + position"

text \<open>Reading an array or typed array at an index: \<open>None\<close> is \<^verbatim>\<open>undefined\<close>.\<close>

definition elementAt :: "'a list \<Rightarrow> int \<Rightarrow> 'a option" where
  "elementAt xs j = (if 0 \<le> j \<and> j < int (length xs) then Some (xs ! nat j) else None)"

text \<open>
  \<^verbatim>\<open>TransCoord(x, y)\<close>. The library checks both coordinates first and throws for one that
  is not a finite number, as \<^verbatim>\<open>undefined\<close> is.
\<close>

definition TransCoord :: "projection \<Rightarrow> float64 option \<Rightarrow> float64 option \<Rightarrow> error + position" where
  "TransCoord proj4 x y =
     (case x of
        None \<Rightarrow> Inl CoordinatesNotFinite
      | Some a \<Rightarrow> (case y of None \<Rightarrow> Inl CoordinatesNotFinite | Some b \<Rightarrow> proj4 a b))"

text \<open>
  \<^verbatim>\<open>for (let j = start; j < end; j += 2) { ...TransCoord(points[j], points[j + 1])... }\<close>:
  the loop of the line and multipoint case (from 0 to \<^verbatim>\<open>points.length\<close>) and of one ring.
\<close>

function transPairs :: "projection \<Rightarrow> float64 list \<Rightarrow> int \<Rightarrow> int \<Rightarrow> error + position list" where
  "transPairs proj4 points j stop =
     (if j < stop then
        thenE (TransCoord proj4 (elementAt points j) (elementAt points (j + 1))) (\<lambda>c.
        thenE (transPairs proj4 points (j + 2) stop) (\<lambda>cs. Inr (c # cs)))
      else Inr [])"
  by pat_completeness auto
termination
  by (relation "measure (\<lambda>(proj4, points, j, stop). nat (stop - j))") auto

declare transPairs.simps [simp del]

text \<open>
  The loop over \<^verbatim>\<open>parts\<close> of the polygon case, from part \<open>p\<close>. \<^verbatim>\<open>points.length / 2\<close> times 2
  is \<^verbatim>\<open>points.length\<close>, also for an odd length; \<^verbatim>\<open>||\<close> takes its right operand when the
  left one is \<^verbatim>\<open>undefined\<close> or 0.
\<close>

function polygonRings ::
  "projection \<Rightarrow> 32 word list \<Rightarrow> float64 list \<Rightarrow> nat \<Rightarrow> error + position list list" where
  "polygonRings proj4 parts points p =
     (if p < length parts then
        thenE (transPairs proj4 points (sint (parts ! p) * 2)
                 (case elementAt parts (int p + 1) of
                    None \<Rightarrow> int (length points)
                  | Some v \<Rightarrow> if sint v = 0 then int (length points) else sint v * 2)) (\<lambda>ring.
        thenE (polygonRings proj4 parts points (p + 1)) (\<lambda>rings. Inr (ring # rings)))
      else Inr [])"
  by pat_completeness auto
termination
  by (relation "measure (\<lambda>(proj4, parts, points, p). length parts - p)") auto

declare polygonRings.simps [simp del]

text \<open>The body of the \<^verbatim>\<open>forEach\<close> callback for the record at index \<open>i\<close>.\<close>

definition toFeature ::
  "projection \<Rightarrow> (jsstring \<rightharpoonup> DBFValue) list \<Rightarrow> nat \<Rightarrow> SHPRecord \<Rightarrow> error + Feature" where
  "toFeature proj4 dbfRecs i shpRecord =
     (case shape shpRecord of
        PointShape x y \<Rightarrow>
          thenE (TransCoord proj4 (Some x) (Some y)) (\<lambda>c.
          Inr \<lparr>geometry = Point c, properties = elementAt dbfRecs (int i)\<rparr>)
      | MultiShape k a b c d parts points \<Rightarrow>
          (case k of
             POLYGON \<Rightarrow>
               thenE (polygonRings proj4 parts points 0) (\<lambda>coordinates.
               Inr \<lparr>geometry = Polygon coordinates, properties = elementAt dbfRecs (int i)\<rparr>)
           | _ \<Rightarrow>
               thenE (transPairs proj4 points 0 (int (length points))) (\<lambda>coordinates.
               Inr \<lparr>geometry = (if k = POLYLINE then LineString coordinates
                                 else MultiPoint coordinates),
                    properties = elementAt dbfRecs (int i)\<rparr>))
      | NullShape \<Rightarrow> Inl (UnsupportedShapeType 0))"

fun forEachRecord ::
  "projection \<Rightarrow> (jsstring \<rightharpoonup> DBFValue) list \<Rightarrow> nat \<Rightarrow> SHPRecord list \<Rightarrow> error + Feature list" where
  "forEachRecord proj4 dbfRecs i [] = Inr []"
| "forEachRecord proj4 dbfRecs i (r # rs) =
     thenE (toFeature proj4 dbfRecs i r) (\<lambda>f.
     thenE (forEachRecord proj4 dbfRecs (i + 1) rs) (\<lambda>fs. Inr (f # fs)))"

text \<open>\<^verbatim>\<open>toGeojson({ shp, dbf })\<close>; the four members of \<^verbatim>\<open>bbox\<close> are four calls.\<close>

definition toGeojson :: "projection \<Rightarrow> SHPFile \<Rightarrow> DBFFile \<Rightarrow> error + FeatureCollection" where
  "toGeojson proj4 shp dbf =
     thenE (TransCoord proj4 (Some (minX shp)) (Some (minY shp))) (\<lambda>c1.
     thenE (TransCoord proj4 (Some (minX shp)) (Some (minY shp))) (\<lambda>c2.
     thenE (TransCoord proj4 (Some (maxX shp)) (Some (maxY shp))) (\<lambda>c3.
     thenE (TransCoord proj4 (Some (maxX shp)) (Some (maxY shp))) (\<lambda>c4.
     thenE (forEachRecord proj4 (dbfRecords dbf) 0 (records shp)) (\<lambda>fs.
     Inr \<lparr>bbox = [fst c1, snd c2, fst c3, snd c4], features = fs\<rparr>)))))"

section \<open>The binary layout of the specification\<close>

text \<open>
  The encoders the layout needs: a 32-bit integer little-endian and big-endian, a float64
  little-endian.
\<close>

definition le32 :: "32 word \<Rightarrow> byte list" where
  "le32 w = [ucast w, ucast (drop_bit 8 w), ucast (drop_bit 16 w), ucast (drop_bit 24 w)]"

definition be32 :: "32 word \<Rightarrow> byte list" where
  "be32 w = rev (le32 w)"

definition le64 :: "64 word \<Rightarrow> byte list" where
  "le64 w =
     [ucast w, ucast (drop_bit 8 w), ucast (drop_bit 16 w), ucast (drop_bit 24 w),
      ucast (drop_bit 32 w), ucast (drop_bit 40 w), ucast (drop_bit 48 w),
      ucast (drop_bit 56 w)]"

text \<open>
  The payload of a record as section 4.1 of the specification lays it out: the type code,
  then nothing (type 0), two float64 (type 1), or for types 3, 5 and 8 alike the bounding
  box, the part count, the point count, the parts and the interleaved points.
\<close>

fun spec_encodeShape :: "SHPShape \<Rightarrow> byte list" where
  "spec_encodeShape NullShape = le32 0"
| "spec_encodeShape (PointShape x y) = le32 1 @ le64 x @ le64 y"
| "spec_encodeShape (MultiShape k a b c d parts points) =
     le32 (word_of_int (MultiKind_code k)) @ le64 a @ le64 b @ le64 c @ le64 d @
     le32 (word_of_nat (length parts)) @ le32 (word_of_nat (length points div 2)) @
     concat (map le32 parts) @ concat (map le64 points)"

text \<open>
  A record: its number and its content length in 16-bit words, both big-endian, then the
  payload.
\<close>

definition spec_encodeRecord :: "32 word \<times> SHPShape \<Rightarrow> byte list" where
  "spec_encodeRecord r =
     be32 (fst r) @ be32 (word_of_nat (length (spec_encodeShape (snd r)) div 2)) @
     spec_encodeShape (snd r)"

text \<open>
  What a geometry needs to be encodable: an even number of interleaved coordinates, and
  counts that fit the signed 32-bit fields.
\<close>

fun spec_validShape :: "SHPShape \<Rightarrow> bool" where
  "spec_validShape (MultiShape k a b c d parts points) \<longleftrightarrow>
     even (length points) \<and> length parts < 2 ^ 31 \<and> length points div 2 < 2 ^ 31"
| "spec_validShape s \<longleftrightarrow> True"

text \<open>The record the decoder is to give back for an encoded one.\<close>

definition spec_decodedRecord :: "32 word \<times> SHPShape \<Rightarrow> SHPRecord" where
  "spec_decodedRecord r =
     \<lparr>number = sint (fst r),
      rlength = int (length (spec_encodeShape (snd r)) div 2),
      shape = snd r\<rparr>"

text \<open>The header fields a writer chooses; the file length is computed.\<close>

record SHPHeaderSpec =
  h_version :: "32 word"
  h_shapeType :: "32 word"
  h_minX :: float64
  h_minY :: float64
  h_maxX :: float64
  h_maxY :: float64
  h_minZ :: float64
  h_maxZ :: float64
  h_minM :: float64
  h_maxM :: float64

text \<open>
  The 100-byte header: file code, five unused integers, the file length in words
  (big-endian), version and shape type (little-endian), eight float64.
\<close>

definition spec_encodeHeader :: "SHPHeaderSpec \<Rightarrow> nat \<Rightarrow> byte list" where
  "spec_encodeHeader h bodyLength =
     be32 0x270a @ replicate 20 0 @ be32 (word_of_nat ((100 + bodyLength) div 2)) @
     le32 (h_version h) @ le32 (h_shapeType h) @
     le64 (h_minX h) @ le64 (h_minY h) @ le64 (h_maxX h) @ le64 (h_maxY h) @
     le64 (h_minZ h) @ le64 (h_maxZ h) @ le64 (h_minM h) @ le64 (h_maxM h)"

definition spec_encodeFile :: "SHPHeaderSpec \<Rightarrow> (32 word \<times> SHPShape) list \<Rightarrow> byte list" where
  "spec_encodeFile h rs =
     spec_encodeHeader h (length (concat (map spec_encodeRecord rs))) @
     concat (map spec_encodeRecord rs)"

text \<open>The byte offset of the header of record \<open>i\<close> in the encoded file.\<close>

definition spec_recordOffset :: "(32 word \<times> SHPShape) list \<Rightarrow> nat \<Rightarrow> nat" where
  "spec_recordOffset rs i = 100 + length (concat (map spec_encodeRecord (take i rs)))"

section \<open>Auxiliary notions of the specification\<close>

text \<open>
  The interleaved array \<^verbatim>\<open>points\<close> as the list of its coordinate pairs, in order; a last
  element without a partner is no pair.
\<close>

fun pairsOf :: "'a list \<Rightarrow> ('a \<times> 'a) list" where
  "pairsOf (x # y # zs) = (x, y) # pairsOf zs"
| "pairsOf zs = []"

text \<open>
  Applying a function that can fail to every element in order; the first failure is the
  result.
\<close>

fun mapE :: "('a \<Rightarrow> error + 'b) \<Rightarrow> 'a list \<Rightarrow> error + 'b list" where
  "mapE f [] = Inr []"
| "mapE f (x # xs) = thenE (f x) (\<lambda>y. thenE (mapE f xs) (\<lambda>ys. Inr (y # ys)))"

text \<open>
  Ring \<open>k\<close> as the specification words it: the points from index \<^verbatim>\<open>parts[k]\<close> (inclusive)
  to \<^verbatim>\<open>parts[k+1]\<close> (exclusive), to the end of the points for the last ring.
\<close>

definition spec_ring :: "32 word list \<Rightarrow> 'a list \<Rightarrow> nat \<Rightarrow> 'a list" where
  "spec_ring parts pts k =
     (let a = nat (sint (parts ! k));
          b = (if k + 1 < length parts then nat (sint (parts ! (k + 1))) else length pts)
      in take (b - a) (drop a pts))"

text \<open>The coordinate pairs a decoded shape holds.\<close>

fun shapePositions :: "SHPShape \<Rightarrow> position list" where
  "shapePositions NullShape = []"
| "shapePositions (PointShape x y) = [(x, y)]"
| "shapePositions (MultiShape k a b c d parts points) = pairsOf points"

text \<open>
  The geometry of a shape with its coordinates as they are: the point, the coordinate
  pairs in order for types 3 and 8, and for type 5 one ring for every part, from the
  part's index to the next part's index, or to the last pair where there is no next part
  or its index is 0. Type 0 has no geometry.
\<close>

definition unprojectedRing :: "32 word list \<Rightarrow> 'a list \<Rightarrow> nat \<Rightarrow> 'a list" where
  "unprojectedRing parts pts p =
     take ((if p + 1 < length parts \<and> parts ! (p + 1) \<noteq> 0
            then nat (sint (parts ! (p + 1))) else length pts) - nat (sint (parts ! p)))
       (drop (nat (sint (parts ! p))) pts)"

fun unprojected :: "SHPShape \<Rightarrow> Geometry option" where
  "unprojected NullShape = None"
| "unprojected (PointShape x y) = Some (Point (x, y))"
| "unprojected (MultiShape POLYLINE a b c d parts points) = Some (LineString (pairsOf points))"
| "unprojected (MultiShape MULTIPOINT a b c d parts points) = Some (MultiPoint (pairsOf points))"
| "unprojected (MultiShape POLYGON a b c d parts points) =
     Some (Polygon (map (unprojectedRing parts (pairsOf points)) [0..<length parts]))"

text \<open>
  A projection is the identity on a list of coordinate pairs when it returns each of them
  as it is. \<open>identityProjection\<close> is so on every pair; \<open>finiteProjection\<close>, which refuses the
  bit pattern of a NaN as the library refuses what is not finite, on every other pair.
\<close>

definition identityOn :: "projection \<Rightarrow> position list \<Rightarrow> bool" where
  "identityOn T cs = list_all (\<lambda>c. T (fst c) (snd c) = Inr c) cs"

definition identityProjection :: projection where
  "identityProjection x y = Inr (x, y)"

definition finiteProjection :: projection where
  "finiteProjection x y =
     (if x = 0x7FF8000000000000 \<or> y = 0x7FF8000000000000 then Inl CoordinatesNotFinite
      else Inr (x, y))"

text \<open>
  A file of four records, the coordinates as IEEE-754 bit patterns: the points
  (121.5, 25) and (120, 24), the line between them, and a triangle closed at (120, 24);
  the header box runs from (120, 24) to (121.5, 25). And an attribute table over given
  records.
\<close>

definition example_shp :: SHPFile where
  "example_shp =
     \<lparr>fileName = [], fileCode = 0x270a, wordLength = 158, byteLength = 316, version = 1000,
      shapeType = 5, minX = 0x405E000000000000, minY = 0x4038000000000000,
      maxX = 0x405E600000000000, maxY = 0x4039000000000000,
      minZ = 0, maxZ = 0, minM = 0, maxM = 0,
      records =
        [\<lparr>number = 1, rlength = 10,
          shape = PointShape 0x405E600000000000 0x4039000000000000\<rparr>,
         \<lparr>number = 2, rlength = 10,
          shape = PointShape 0x405E000000000000 0x4038000000000000\<rparr>,
         \<lparr>number = 3, rlength = 40,
          shape = MultiShape POLYLINE 0x405E000000000000 0x4038000000000000
                    0x405E600000000000 0x4039000000000000 [0]
                    [0x405E000000000000, 0x4038000000000000,
                     0x405E600000000000, 0x4039000000000000]\<rparr>,
         \<lparr>number = 4, rlength = 56,
          shape = MultiShape POLYGON 0x405E000000000000 0x4038000000000000
                    0x405E600000000000 0x4039000000000000 [0]
                    [0x405E000000000000, 0x4038000000000000,
                     0x405E600000000000, 0x4038000000000000,
                     0x405E600000000000, 0x4039000000000000,
                     0x405E000000000000, 0x4038000000000000]\<rparr>]\<rparr>"

definition example_dbf :: "(jsstring \<rightharpoonup> DBFValue) list \<Rightarrow> DBFFile" where
  "example_dbf recs =
     \<lparr>dbfFileName = [], dbfVersion = 3, year = 2024, month = 1, day = 1,
      numberOfRecords = int (length recs), bytesInHeader = 65, bytesInRecord = 11,
      incompleteTransation = 0, encryptionFlag = 0, mdxFlag = 0, languageDriverId = 0,
      dbfFields = [\<lparr>name = Some [0x6E, 0x61, 0x6D, 0x65], ftype = [0x43], fieldLength = 10,
                    workAreaId = 0, setFieldFlag = 0, indexFieldFlag = 0\<rparr>],
      fieldpos = 65, dbfRecords = recs\<rparr>"

section \<open>The field walks of the specification, and two tables\<close>

text \<open>
  Field name and field value as the specification words them: the walk runs over the
  text the value is cut from, and the number of characters it has counted is the number
  of characters taken.
\<close>

definition spec_fieldName :: "jsstring \<Rightarrow> nat \<Rightarrow> jsstring" where
  "spec_fieldName headerText offset =
     removeNUL (take (walk headerText offset 10 0 0) headerText)"

definition spec_fieldValue :: "jsstring \<Rightarrow> nat \<Rightarrow> nat \<Rightarrow> jsstring" where
  "spec_fieldValue recordText offset len =
     trim (removeNUL (take (walk recordText offset len 0 0) recordText))"

text \<open>The encoding label \<^verbatim>\<open>big5\<close>.\<close>

definition big5 :: jsstring where
  "big5 = [0x62, 0x69, 0x67, 0x35]"

text \<open>
  A table in Big5 with one field \<^verbatim>\<open>NAME\<close> of four bytes and two records, the first holding
  two double-byte characters (U+4E2D U+6587), the second \<^verbatim>\<open>abcd\<close>: the bytes of the file
  and the text a Big5 decoder makes of them.
\<close>

definition values_bytes :: "byte list" where
  "values_bytes =
     [0x03, 0x7C, 0x01, 0x01, 0x02, 0x00, 0x00, 0x00, 0x41, 0x00, 0x05, 0x00, 0x00,
      0x00, 0x00, 0x00, 0x00, 0x00, 0x00, 0x00, 0x00, 0x00, 0x00, 0x00, 0x00, 0x00,
      0x00, 0x00, 0x00, 0x00, 0x00, 0x00, 0x4E, 0x41, 0x4D, 0x45, 0x00, 0x00, 0x00,
      0x00, 0x00, 0x00, 0x00, 0x43, 0x00, 0x00, 0x00, 0x00, 0x04, 0x00, 0x00, 0x00,
      0x00, 0x00, 0x00, 0x00, 0x00, 0x00, 0x00, 0x00, 0x00, 0x00, 0x00, 0x00, 0x0D,
      0x20, 0xA4, 0xA4, 0xA4, 0xE5, 0x20, 0x61, 0x62, 0x63, 0x64, 0x1A]"

definition values_text :: jsstring where
  "values_text =
     [0x03, 0x7C, 0x01, 0x01, 0x02, 0x00, 0x00, 0x00, 0x41, 0x00, 0x05, 0x00, 0x00,
      0x00, 0x00, 0x00, 0x00, 0x00, 0x00, 0x00, 0x00, 0x00, 0x00, 0x00, 0x00, 0x00,
      0x00, 0x00, 0x00, 0x00, 0x00, 0x00, 0x4E, 0x41, 0x4D, 0x45, 0x00, 0x00, 0x00,
      0x00, 0x00, 0x00, 0x00, 0x43, 0x00, 0x00, 0x00, 0x00, 0x04, 0x00, 0x00, 0x00,
      0x00, 0x00, 0x00, 0x00, 0x00, 0x00, 0x00, 0x00, 0x00, 0x00, 0x00, 0x00, 0x0D,
      0x20, 0x4E2D, 0x6587, 0x20, 0x61, 0x62, 0x63, 0x64, 0x1A]"

text \<open>
  A table in Big5 without records whose one field is named by two double-byte characters
  (U+540D U+7A31): the bytes and the decoded text, two characters shorter.
\<close>

definition names_bytes :: "byte list" where
  "names_bytes =
     [0x03, 0x7C, 0x01, 0x01, 0x00, 0x00, 0x00, 0x00, 0x41, 0x00, 0x05, 0x00, 0x00,
      0x00, 0x00, 0x00, 0x00, 0x00, 0x00, 0x00, 0x00, 0x00, 0x00, 0x00, 0x00, 0x00,
      0x00, 0x00, 0x00, 0x00, 0x00, 0x00, 0xA6, 0x57, 0xBA, 0xD9, 0x00, 0x00, 0x00,
      0x00, 0x00, 0x00, 0x00, 0x43, 0x00, 0x00, 0x00, 0x00, 0x04, 0x00, 0x00, 0x00,
      0x00, 0x00, 0x00, 0x00, 0x00, 0x00, 0x00, 0x00, 0x00, 0x00, 0x00, 0x00, 0x0D,
      0x1A]"

definition names_text :: jsstring where
  "names_text =
     [0x03, 0x7C, 0x01, 0x01, 0x00, 0x00, 0x00, 0x00, 0x41, 0x00, 0x05, 0x00, 0x00,
      0x00, 0x00, 0x00, 0x00, 0x00, 0x00, 0x00, 0x00, 0x00, 0x00, 0x00, 0x00, 0x00,
      0x00, 0x00, 0x00, 0x00, 0x00, 0x00, 0x540D, 0x7A31, 0x00, 0x00, 0x00, 0x00, 0x00,
      0x00, 0x00, 0x43, 0x00, 0x00, 0x00, 0x00, 0x04, 0x00, 0x00, 0x00, 0x00, 0x00,
      0x00, 0x00, 0x00, 0x00, 0x00, 0x00, 0x00, 0x00, 0x00, 0x00, 0x0D, 0x1A]"

text \<open>
  A table of single-byte text whose four count bytes are all \<^verbatim>\<open>FF\<close>: one field \<^verbatim>\<open>NAME\<close> of
  four bytes and no record. The bytes, the text a Latin-1 decoder makes of them, and the
  encoding label \<^verbatim>\<open>latin1\<close>.
\<close>

definition count_bytes :: "byte list" where
  "count_bytes =
     [0x03, 0x7C, 0x01, 0x01, 0xFF, 0xFF, 0xFF, 0xFF, 0x41, 0x00, 0x05, 0x00, 0x00,
      0x00, 0x00, 0x00, 0x00, 0x00, 0x00, 0x00, 0x00, 0x00, 0x00, 0x00, 0x00, 0x00,
      0x00, 0x00, 0x00, 0x00, 0x00, 0x00, 0x4E, 0x41, 0x4D, 0x45, 0x00, 0x00, 0x00,
      0x00, 0x00, 0x00, 0x00, 0x43, 0x00, 0x00, 0x00, 0x00, 0x04, 0x00, 0x00, 0x00,
      0x00, 0x00, 0x00, 0x00, 0x00, 0x00, 0x00, 0x00, 0x00, 0x00, 0x00, 0x00, 0x0D,
      0x1A]"

definition count_text :: jsstring where
  "count_text =
     [0x03, 0x7C, 0x01, 0x01, 0xFF, 0xFF, 0xFF, 0xFF, 0x41, 0x00, 0x05, 0x00, 0x00,
      0x00, 0x00, 0x00, 0x00, 0x00, 0x00, 0x00, 0x00, 0x00, 0x00, 0x00, 0x00, 0x00,
      0x00, 0x00, 0x00, 0x00, 0x00, 0x00, 0x4E, 0x41, 0x4D, 0x45, 0x00, 0x00, 0x00,
      0x00, 0x00, 0x00, 0x00, 0x43, 0x00, 0x00, 0x00, 0x00, 0x04, 0x00, 0x00, 0x00,
      0x00, 0x00, 0x00, 0x00, 0x00, 0x00, 0x00, 0x00, 0x00, 0x00, 0x00, 0x00, 0x0D,
      0x1A]"

definition latin1 :: jsstring where
  "latin1 = [0x6C, 0x61, 0x74, 0x69, 0x6E, 0x31]"

section \<open>Basic facts\<close>

lemma thenE_simps [simp]:
  "thenE (Inl e) f = Inl e"
  "thenE (Inr x) f = f x"
  by (simp_all add: thenE_def)

section \<open>The shapefile parser: errors\<close>

text \<open>
  Claim C4. A buffer whose first four bytes, read big-endian, are not the file code
  \<^verbatim>\<open>0x0000270a\<close> makes \<^verbatim>\<open>SHPParser.parse\<close> fail: the result is an error and no file, so no
  record is decoded. With four bytes or more the error is the unknown file code; a
  shorter buffer fails in the read itself.
\<close>

theorem C4_unknown_file_code:
  assumes "getInt32 dv 0 False \<noteq> Inr 0x270a"
  shows "SHPParser_parse dv url =
           Some (Inl (case getInt32 dv 0 False of
                        Inl e \<Rightarrow> e
                      | Inr code \<Rightarrow> UnknownFileCode code))"
  using assms by (simp add: SHPParser_parse_def split: sum.splits)

theorem C4_unknown_file_code_witness:
  "SHPParser_parse [0, 0, 0x27, 0x0b] [] = Some (Inl (UnknownFileCode 0x270b)) \<and>
   SHPParser_parse [0, 0, 0x27] [] = Some (Inl RangeError)"
proof -
  have a: "getInt32 [0, 0, 0x27, 0x0b] 0 False = Inr 0x270b"
    by (simp add: getInt32_def bytesAt_def word32le_def)
  have b: "getInt32 [0, 0, 0x27] 0 False = Inl RangeError"
    by (simp add: getInt32_def bytesAt_def)
  from a have a': "getInt32 [0, 0, 0x27, 0x0b] 0 False \<noteq> Inr 0x270a" by simp
  from b have b': "getInt32 [0, 0, 0x27] 0 False \<noteq> Inr 0x270a" by simp
  show ?thesis
    using C4_unknown_file_code [OF a', of "[]"] C4_unknown_file_code [OF b', of "[]"]
    by (simp add: a b)
qed



section \<open>The shapefile parser: decoding an encoded file\<close>

lemma length_le32 [simp]: "length (le32 w) = 4" by (simp add: le32_def)

lemma length_be32 [simp]: "length (be32 w) = 4" by (simp add: be32_def)

lemma length_le64 [simp]: "length (le64 w) = 8" by (simp add: le64_def)

lemma bit_byte0:
  "bit (ucast (ucast (w :: 'a::len word) :: 8 word) :: 'a word) n \<longleftrightarrow> n < 8 \<and> bit w n"
  by (auto simp: bit_simps dest: bit_imp_le_length)

lemma bit_byte:
  "bit (push_bit m (ucast (ucast (drop_bit m (w :: 'a::len word)) :: 8 word) :: 'a word)) n
     \<longleftrightarrow> m \<le> n \<and> n < m + 8 \<and> bit w n"
  by (auto simp: bit_simps le_add_diff_inverse dest: bit_imp_le_length)

lemma word32le_le32 [simp]: "word32le (le32 w) = w"
proof (rule bit_word_eqI)
  fix n assume "n < LENGTH(32)"
  then have "n < 8 \<or> (8 \<le> n \<and> n < 8 + 8) \<or> (16 \<le> n \<and> n < 16 + 8) \<or> (24 \<le> n \<and> n < 24 + 8)"
    by simp arith
  then show "bit (word32le (le32 w)) n = bit w n"
    unfolding word32le_def le32_def
    by (simp only: bit_or_iff bit_byte bit_byte0 nth_Cons_0 nth_Cons_numeral nth_Cons_Suc One_nat_def
          numeral_nat diff_Suc_1 pred_numeral_simps) (simp; blast)
qed

lemma word64le_le64 [simp]: "word64le (le64 w) = w"
proof (rule bit_word_eqI)
  fix n assume "n < LENGTH(64)"
  then have "n < 8 \<or> (8 \<le> n \<and> n < 8 + 8) \<or> (16 \<le> n \<and> n < 16 + 8) \<or> (24 \<le> n \<and> n < 24 + 8)
     \<or> (32 \<le> n \<and> n < 32 + 8) \<or> (40 \<le> n \<and> n < 40 + 8) \<or> (48 \<le> n \<and> n < 48 + 8)
     \<or> (56 \<le> n \<and> n < 56 + 8)"
    by simp arith
  then show "bit (word64le (le64 w)) n = bit w n"
    unfolding word64le_def le64_def
    by (simp only: bit_or_iff bit_byte bit_byte0 nth_Cons_0 nth_Cons_numeral nth_Cons_Suc One_nat_def
          numeral_nat diff_Suc_1 pred_numeral_simps) (simp; blast)
qed

lemma bytesAt_mid:
  "idx = int (length pre) \<Longrightarrow> n = length bs \<Longrightarrow> bytesAt (pre @ bs @ post) idx n = Inr bs"
  by (simp add: bytesAt_def)

lemma getInt32_le32:
  "idx = int (length pre) \<Longrightarrow> getInt32 (pre @ le32 w @ post) idx True = Inr (sint w)"
  by (simp add: getInt32_def bytesAt_mid)

lemma getInt32_be32:
  "idx = int (length pre) \<Longrightarrow> getInt32 (pre @ be32 w @ post) idx False = Inr (sint w)"
  by (simp add: getInt32_def bytesAt_mid) (simp add: be32_def)

lemma getFloat64_le64:
  "idx = int (length pre) \<Longrightarrow> getFloat64 (pre @ le64 x @ post) idx True = Inr x"
  by (simp add: getFloat64_def bytesAt_mid)

lemma readParts_encoded:
  "idx = int (length pre) \<Longrightarrow>
   readParts (pre @ concat (map le32 ps) @ post) idx (length ps) = Inr ps"
proof (induction ps arbitrary: pre idx)
  case Nil
  then show ?case by simp
next
  case (Cons p ps)
  have "readParts ((pre @ le32 p) @ concat (map le32 ps) @ post) (idx + 4) (length ps) = Inr ps"
    by (rule Cons.IH) (simp add: Cons.prems)
  then show ?case
    using Cons.prems by (simp add: getInt32_le32)
qed

lemma readPoints_encoded:
  "idx = int (length pre) \<Longrightarrow>
   readPoints (pre @ concat (map le64 ps) @ post) idx (length ps) = Inr ps"
proof (induction ps arbitrary: pre idx)
  case Nil
  then show ?case by simp
next
  case (Cons p ps)
  have "readPoints ((pre @ le64 p) @ concat (map le64 ps) @ post) (idx + 8) (length ps) = Inr ps"
    by (rule Cons.IH) (simp add: Cons.prems)
  then show ?case
    using Cons.prems by (simp add: getFloat64_le64)
qed

lemma sint_word_of_int32:
  "- (2 ^ 31) \<le> k \<Longrightarrow> k < 2 ^ 31 \<Longrightarrow> sint (word_of_int k :: 32 word) = k"
  by (simp add: sint_sbintrunc' signed_take_bit_int_eq_self_iff)

lemma sint_word_of_nat32: "n < 2 ^ 31 \<Longrightarrow> sint (word_of_nat n :: 32 word) = int n"
  using sint_word_of_int32 [of "int n"] by simp

lemma length_concat_le32: "length (concat (map le32 ps)) = 4 * length ps"
  by (induction ps) simp_all

lemma length_concat_le64: "length (concat (map le64 ps)) = 8 * length ps"
  by (induction ps) simp_all

lemma parseMulti_encoded:
  assumes "idx = int (length pre)" "spec_validShape (MultiShape k a b c d parts points)"
  shows "parseMulti k
           (pre @ le64 a @ le64 b @ le64 c @ le64 d @ le32 (word_of_nat (length parts)) @
                   le32 (word_of_nat (length points div 2)) @
                   concat (map le32 parts) @ concat (map le64 points) @ post)
           idx = Inr (MultiShape k a b c d parts points)"
proof -
  let ?np = "le32 (word_of_nat (length parts))"
  let ?nq = "le32 (word_of_nat (length points div 2))"
  let ?ps = "concat (map le32 parts)"
  let ?qs = "concat (map le64 points)"
  let ?dv = "pre @ le64 a @ le64 b @ le64 c @ le64 d @ ?np @ ?nq @ ?ps @ ?qs @ post"
  from assms(2) have ev: "even (length points)" and np: "length parts < 2 ^ 31"
    and nq: "length points div 2 < 2 ^ 31" by simp_all
  have r1: "getFloat64 ?dv idx True = Inr a"
    using getFloat64_le64 [of idx pre a "le64 b @ le64 c @ le64 d @ ?np @ ?nq @ ?ps @ ?qs @ post"] assms(1)
    by simp
  have r2: "getFloat64 ?dv (idx + 8) True = Inr b"
    using getFloat64_le64 [of "idx + 8" "pre @ le64 a" b "le64 c @ le64 d @ ?np @ ?nq @ ?ps @ ?qs @ post"] assms(1)
    by simp
  have r3: "getFloat64 ?dv (idx + 16) True = Inr c"
    using getFloat64_le64 [of "idx + 16" "pre @ le64 a @ le64 b" c "le64 d @ ?np @ ?nq @ ?ps @ ?qs @ post"] assms(1)
    by simp
  have r4: "getFloat64 ?dv (idx + 24) True = Inr d"
    using getFloat64_le64 [of "idx + 24" "pre @ le64 a @ le64 b @ le64 c" d "?np @ ?nq @ ?ps @ ?qs @ post"] assms(1)
    by simp
  have r5: "getInt32 ?dv (idx + 32) True = Inr (int (length parts))"
    using getInt32_le32 [of "idx + 32" "pre @ le64 a @ le64 b @ le64 c @ le64 d" "word_of_nat (length parts)"
        "?nq @ ?ps @ ?qs @ post"] assms(1) np
    by (simp add: sint_word_of_nat32)
  have r6: "getInt32 ?dv (idx + 36) True = Inr (int (length points div 2))"
    using getInt32_le32 [of "idx + 36" "pre @ le64 a @ le64 b @ le64 c @ le64 d @ ?np"
        "word_of_nat (length points div 2)" "?ps @ ?qs @ post"] assms(1) nq
    by (simp add: sint_word_of_nat32)
  have r7: "readParts ?dv (idx + 40) (length parts) = Inr parts"
    using readParts_encoded [of "idx + 40" "pre @ le64 a @ le64 b @ le64 c @ le64 d @ ?np @ ?nq" parts
        "?qs @ post"] assms(1)
    by simp
  have r8: "readPoints ?dv (idx + 40 + 4 * int (length parts)) (length points) = Inr points"
    using readPoints_encoded [of "idx + 40 + 4 * int (length parts)"
        "pre @ le64 a @ le64 b @ le64 c @ le64 d @ ?np @ ?nq @ ?ps" points post] assms(1)
    by (simp add: length_concat_le32)
  have n2: "nat (int (length points div 2) * 2) = length points"
    using ev by (simp add: nat_mult_distrib) 
  show ?thesis
    unfolding parseMulti_def
    by (simp only: r1 r2 r3 r4 r5 r6 thenE_simps) (simp add: r7 r8 n2)
qed

lemma parseShape_encoded:
  assumes "idx = int (length pre)" "spec_validShape s"
  shows "parseShape (pre @ spec_encodeShape s @ post) idx len = Inr s"
proof (cases s)
  case NullShape
  have "getInt32 (pre @ le32 0 @ post) idx True = Inr 0"
    using getInt32_le32 [of idx pre 0 post] assms(1) by simp
  then show ?thesis by (simp add: NullShape parseShape_def)
next
  case (PointShape x y)
  let ?dv = "pre @ le32 1 @ le64 x @ le64 y @ post"
  have r0: "getInt32 ?dv idx True = Inr 1"
    using getInt32_le32 [of idx pre 1 "le64 x @ le64 y @ post"] assms(1) by simp
  have r1: "getFloat64 ?dv (idx + 4) True = Inr x"
    using getFloat64_le64 [of "idx + 4" "pre @ le32 1" x "le64 y @ post"] assms(1) by simp
  have r2: "getFloat64 ?dv (idx + 4 + 8) True = Inr y"
    using getFloat64_le64 [of "idx + 4 + 8" "pre @ le32 1 @ le64 x" y post] assms(1) by simp
  show ?thesis
    using r0 r1 r2 by (simp add: PointShape parseShape_def)
next
  case (MultiShape k a b c d parts points)
  let ?rest = "le64 a @ le64 b @ le64 c @ le64 d @ le32 (word_of_nat (length parts)) @
                   le32 (word_of_nat (length points div 2)) @
                   concat (map le32 parts) @ concat (map le64 points) @ post"
  let ?dv = "pre @ le32 (word_of_int (MultiKind_code k)) @ ?rest"
  have r0: "getInt32 ?dv idx True = Inr (MultiKind_code k)"
    using getInt32_le32 [of idx pre "word_of_int (MultiKind_code k)" ?rest] assms(1)
    by (cases k) simp_all
  have r1: "parseMulti k ?dv (idx + 4) = Inr s"
    using parseMulti_encoded [of "idx + 4" "pre @ le32 (word_of_int (MultiKind_code k))" k a b c d parts points post]
      assms MultiShape by simp
  show ?thesis
    using r0 r1 by (cases k) (simp_all add: MultiShape parseShape_def)
qed

lemma even_length_encodeShape: "even (length (spec_encodeShape s))"
  by (cases s) (simp_all add: length_concat_le32 length_concat_le64)

lemma length_encodeRecord:
  "length (spec_encodeRecord r) = 8 + length (spec_encodeShape (snd r))"
  by (simp add: spec_encodeRecord_def)

lemma even_length_body: "even (length (concat (map spec_encodeRecord rs)))"
  by (induction rs) (simp_all add: length_encodeRecord even_length_encodeShape)

lemma parseRecords_step:
  assumes v: "spec_validShape (snd r)"
    and b: "length (spec_encodeShape (snd r)) div 2 < 2 ^ 31"
    and l: "int (length pre) < byteLen"
  shows "parseRecords (pre @ spec_encodeRecord r @ post) byteLen (int (length pre)) acc =
         parseRecords (pre @ spec_encodeRecord r @ post) byteLen
           (int (length pre) + 8 + rlength (spec_decodedRecord r) * 2)
           (acc @ [spec_decodedRecord r])"
proof -
  let ?n = "be32 (fst r)"
  let ?l = "be32 (word_of_nat (length (spec_encodeShape (snd r)) div 2))"
  let ?p = "spec_encodeShape (snd r)"
  let ?dv = "pre @ ?n @ ?l @ ?p @ post"
  have dv: "pre @ spec_encodeRecord r @ post = ?dv"
    by (simp add: spec_encodeRecord_def)
  have r1: "getInt32 ?dv (int (length pre)) False = Inr (sint (fst r))"
    by (rule getInt32_be32) simp
  have r2: "getInt32 ?dv (int (length pre) + 4) False =
              Inr (int (length (spec_encodeShape (snd r)) div 2))"
    using getInt32_be32 [of "int (length pre) + 4" "pre @ ?n"
        "word_of_nat (length (spec_encodeShape (snd r)) div 2)" "?p @ post"] b
    by (simp add: sint_word_of_nat32)
  have r3: "parseShape ?dv (int (length pre) + 8) len = Inr (snd r)" for len
    using parseShape_encoded [of "int (length pre) + 8" "pre @ ?n @ ?l" "snd r" post len] v
    by simp
  show ?thesis
    unfolding dv
    by (subst parseRecords.simps) (simp add: l r1 r2 r3 spec_decodedRecord_def)
qed

lemma parseRecords_encoded:
  assumes "list_all (\<lambda>r. spec_validShape (snd r)) rs"
    and "length (pre @ concat (map spec_encodeRecord rs)) div 2 < 2 ^ 31"
  shows "parseRecords (pre @ concat (map spec_encodeRecord rs))
           (int (length (pre @ concat (map spec_encodeRecord rs)))) (int (length pre)) acc =
         Some (Inr (acc @ map spec_decodedRecord rs))"
  using assms
proof (induction rs arbitrary: pre acc)
  case Nil
  show ?case by (subst parseRecords.simps) simp
next
  case (Cons r rs)
  let ?body = "concat (map spec_encodeRecord rs)"
  let ?dv = "pre @ spec_encodeRecord r @ ?body"
  have v: "spec_validShape (snd r)" and vs: "list_all (\<lambda>r. spec_validShape (snd r)) rs"
    using Cons.prems(1) by simp_all
  have tot: "length ?dv div 2 < 2 ^ 31"
    using Cons.prems(2) by simp
  have "length (spec_encodeShape (snd r)) \<le> length ?dv"
    by (simp add: length_encodeRecord)
  then have "length (spec_encodeShape (snd r)) div 2 \<le> length ?dv div 2"
    by (rule div_le_mono)
  with tot have b: "length (spec_encodeShape (snd r)) div 2 < 2 ^ 31"
    by linarith
  have l: "int (length pre) < int (length ?dv)"
    by (simp add: length_encodeRecord)
  have adv: "int (length pre) + 8 + rlength (spec_decodedRecord r) * 2 =
             int (length (pre @ spec_encodeRecord r))"
    using even_length_encodeShape [of "snd r"]
    by (auto simp: spec_decodedRecord_def length_encodeRecord elim!: evenE)
  have "parseRecords ?dv (int (length ?dv)) (int (length pre)) acc =
        parseRecords ?dv (int (length ?dv)) (int (length (pre @ spec_encodeRecord r)))
          (acc @ [spec_decodedRecord r])"
    using parseRecords_step [OF v b l, of ?body acc] by (simp only: adv)
  also have "\<dots> = Some (Inr ((acc @ [spec_decodedRecord r]) @ map spec_decodedRecord rs))"
    using Cons.IH [of "pre @ spec_encodeRecord r" "acc @ [spec_decodedRecord r]"] vs tot
    by simp
  finally show ?case by simp
qed

lemma length_encodeHeader [simp]: "length (spec_encodeHeader h n) = 100"
  by (simp add: spec_encodeHeader_def)

lemma parseHeader_encoded:
  assumes "(100 + n) div 2 < 2 ^ 31"
  shows "parseHeader (spec_encodeHeader h n @ body) url code =
         Inr \<lparr>fileName = url, fileCode = code, wordLength = int ((100 + n) div 2),
              byteLength = int ((100 + n) div 2) * 2,
              version = sint (h_version h), shapeType = sint (h_shapeType h),
              minX = h_minX h, minY = h_minY h, maxX = h_maxX h, maxY = h_maxY h,
              minZ = h_minZ h, maxZ = h_maxZ h, minM = h_minM h, maxM = h_maxM h,
              records = []\<rparr>"
proof -
  let ?a = "be32 0x270a @ replicate 20 0"
  let ?wl = "be32 (word_of_nat ((100 + n) div 2))"
  let ?v = "le32 (h_version h)" and ?s = "le32 (h_shapeType h)"
  let ?x0 = "le64 (h_minX h)" and ?y0 = "le64 (h_minY h)"
  let ?x1 = "le64 (h_maxX h)" and ?y1 = "le64 (h_maxY h)"
  let ?z0 = "le64 (h_minZ h)" and ?z1 = "le64 (h_maxZ h)"
  let ?m0 = "le64 (h_minM h)" and ?m1 = "le64 (h_maxM h)"
  let ?dv = "?a @ ?wl @ ?v @ ?s @ ?x0 @ ?y0 @ ?x1 @ ?y1 @ ?z0 @ ?z1 @ ?m0 @ ?m1 @ body"
  have dv: "spec_encodeHeader h n @ body = ?dv"
    by (simp add: spec_encodeHeader_def)
  have r1: "getInt32 ?dv 24 False = Inr (int ((100 + n) div 2))"
    using getInt32_be32 [of 24 ?a "word_of_nat ((100 + n) div 2)"
        "?v @ ?s @ ?x0 @ ?y0 @ ?x1 @ ?y1 @ ?z0 @ ?z1 @ ?m0 @ ?m1 @ body"] assms
    by (simp add: sint_word_of_nat32)
  have r2: "getInt32 ?dv 28 True = Inr (sint (h_version h))"
    using getInt32_le32 [of 28 "?a @ ?wl" "h_version h"
        "?s @ ?x0 @ ?y0 @ ?x1 @ ?y1 @ ?z0 @ ?z1 @ ?m0 @ ?m1 @ body"]
    by simp
  have r3: "getInt32 ?dv 32 True = Inr (sint (h_shapeType h))"
    using getInt32_le32 [of 32 "?a @ ?wl @ ?v" "h_shapeType h"
        "?x0 @ ?y0 @ ?x1 @ ?y1 @ ?z0 @ ?z1 @ ?m0 @ ?m1 @ body"]
    by simp
  have f1: "getFloat64 ?dv 36 True = Inr (h_minX h)"
    using getFloat64_le64 [of 36 "?a @ ?wl @ ?v @ ?s" "h_minX h"
        "?y0 @ ?x1 @ ?y1 @ ?z0 @ ?z1 @ ?m0 @ ?m1 @ body"]
    by simp
  have f2: "getFloat64 ?dv 44 True = Inr (h_minY h)"
    using getFloat64_le64 [of 44 "?a @ ?wl @ ?v @ ?s @ ?x0" "h_minY h"
        "?x1 @ ?y1 @ ?z0 @ ?z1 @ ?m0 @ ?m1 @ body"]
    by simp
  have f3: "getFloat64 ?dv 52 True = Inr (h_maxX h)"
    using getFloat64_le64 [of 52 "?a @ ?wl @ ?v @ ?s @ ?x0 @ ?y0" "h_maxX h"
        "?y1 @ ?z0 @ ?z1 @ ?m0 @ ?m1 @ body"]
    by simp
  have f4: "getFloat64 ?dv 60 True = Inr (h_maxY h)"
    using getFloat64_le64 [of 60 "?a @ ?wl @ ?v @ ?s @ ?x0 @ ?y0 @ ?x1" "h_maxY h"
        "?z0 @ ?z1 @ ?m0 @ ?m1 @ body"]
    by simp
  have f5: "getFloat64 ?dv 68 True = Inr (h_minZ h)"
    using getFloat64_le64 [of 68 "?a @ ?wl @ ?v @ ?s @ ?x0 @ ?y0 @ ?x1 @ ?y1" "h_minZ h"
        "?z1 @ ?m0 @ ?m1 @ body"]
    by simp
  have f6: "getFloat64 ?dv 76 True = Inr (h_maxZ h)"
    using getFloat64_le64 [of 76 "?a @ ?wl @ ?v @ ?s @ ?x0 @ ?y0 @ ?x1 @ ?y1 @ ?z0" "h_maxZ h"
        "?m0 @ ?m1 @ body"]
    by simp
  have f7: "getFloat64 ?dv 84 True = Inr (h_minM h)"
    using getFloat64_le64 [of 84 "?a @ ?wl @ ?v @ ?s @ ?x0 @ ?y0 @ ?x1 @ ?y1 @ ?z0 @ ?z1" "h_minM h"
        "?m1 @ body"]
    by simp
  have f8: "getFloat64 ?dv 92 True = Inr (h_maxM h)"
    using getFloat64_le64 [of 92 "?a @ ?wl @ ?v @ ?s @ ?x0 @ ?y0 @ ?x1 @ ?y1 @ ?z0 @ ?z1 @ ?m0" "h_maxM h"
        body]
    by simp
  show ?thesis
    unfolding dv parseHeader_def
    using r1 r2 r3 f1 f2 f3 f4 f5 f6 f7 f8 by simp
qed

lemma fileCode_encoded:
  "getInt32 (spec_encodeHeader h n @ body) 0 False = Inr 0x270a"
proof -
  have "getInt32 ([] @ be32 0x270a @ (replicate 20 0 @ be32 (word_of_nat ((100 + n) div 2)) @
     le32 (h_version h) @ le32 (h_shapeType h) @
     le64 (h_minX h) @ le64 (h_minY h) @ le64 (h_maxX h) @ le64 (h_maxY h) @
     le64 (h_minZ h) @ le64 (h_maxZ h) @ le64 (h_minM h) @ le64 (h_maxM h) @ body)) 0 False
     = Inr (sint (0x270a :: 32 word))"
    by (rule getInt32_be32) simp
  then show ?thesis by (simp add: spec_encodeHeader_def)
qed

lemma parse_encoded:
  assumes "list_all (\<lambda>r. spec_validShape (snd r)) rs"
    and "length (spec_encodeFile h rs) div 2 < 2 ^ 31"
  shows "SHPParser_parse (spec_encodeFile h rs) url =
         Some (Inr \<lparr>fileName = url, fileCode = 0x270a,
              wordLength = int (length (spec_encodeFile h rs) div 2),
              byteLength = int (length (spec_encodeFile h rs)),
              version = sint (h_version h), shapeType = sint (h_shapeType h),
              minX = h_minX h, minY = h_minY h, maxX = h_maxX h, maxY = h_maxY h,
              minZ = h_minZ h, maxZ = h_maxZ h, minM = h_minM h, maxM = h_maxM h,
              records = map spec_decodedRecord rs\<rparr>)"
proof -
  let ?body = "concat (map spec_encodeRecord rs)"
  let ?hd = "spec_encodeHeader h (length ?body)"
  have len: "length (spec_encodeFile h rs) = 100 + length ?body"
    by (simp add: spec_encodeFile_def)
  have ev: "int ((100 + length ?body) div 2) * 2 = int (100 + length ?body)"
    using even_length_body [of rs] by (auto elim!: evenE)
  have b: "(100 + length ?body) div 2 < 2 ^ 31"
    using assms(2) len by simp
  have recs: "parseRecords (?hd @ ?body) (int (length (?hd @ ?body))) (int (length ?hd)) [] =
              Some (Inr ([] @ map spec_decodedRecord rs))"
    by (rule parseRecords_encoded) (use assms(1) b in simp_all)
  show ?thesis
    using recs ev
    by (simp add: SHPParser_parse_def spec_encodeFile_def fileCode_encoded
          parseHeader_encoded [OF b])
qed

lemma encodeFile_split:
  assumes "i < length rs"
  shows "spec_encodeFile h rs =
         (spec_encodeHeader h (length (concat (map spec_encodeRecord rs))) @
            concat (map spec_encodeRecord (take i rs))) @
         spec_encodeRecord (rs ! i) @ concat (map spec_encodeRecord (drop (Suc i) rs))"
proof -
  have "rs = take i rs @ rs ! i # drop (Suc i) rs"
    using assms by (rule id_take_nth_drop)
  then have "concat (map spec_encodeRecord rs) =
             concat (map spec_encodeRecord (take i rs)) @ spec_encodeRecord (rs ! i) @
             concat (map spec_encodeRecord (drop (Suc i) rs))"
    by (metis concat.simps(2) concat_append list.simps(9) map_append)
  then show ?thesis
    by (simp add: spec_encodeFile_def)
qed

text \<open>
  Claim C6. A file that encodes \<open>N\<close> geometries of the supported types in the layout
  above decodes to a file with exactly \<open>N\<close> records, in the order of the input, each
  with the geometry (hence the shape type) and the record number it was encoded with.
  At the header of record \<open>i\<close> one turn of the loop pushes that record and leaves the
  cursor \<^verbatim>\<open>length * 2\<close> bytes after the start of the payload, which is the header of
  record \<open>i + 1\<close>.
\<close>

theorem C6_decode_encoded:
  assumes "list_all (\<lambda>r. spec_validShape (snd r)) rs"
    and "length (spec_encodeFile h rs) div 2 < 2 ^ 31"
  shows "\<exists>f. SHPParser_parse (spec_encodeFile h rs) url = Some (Inr f) \<and>
             length (records f) = length rs \<and>
             map shape (records f) = map snd rs \<and>
             (\<forall>i<length rs.
                shapeTypeOf (shape (records f ! i)) = shapeTypeOf (snd (rs ! i)) \<and>
                number (records f ! i) = sint (fst (rs ! i)) \<and>
                (\<forall>acc. parseRecords (spec_encodeFile h rs) (byteLength f)
                         (int (spec_recordOffset rs i)) acc =
                       parseRecords (spec_encodeFile h rs) (byteLength f)
                         (int (spec_recordOffset rs i) + 8 + rlength (records f ! i) * 2)
                         (acc @ [records f ! i])) \<and>
                int (spec_recordOffset rs (Suc i)) =
                  int (spec_recordOffset rs i) + 8 + rlength (records f ! i) * 2)"
proof -
  let ?dv = "spec_encodeFile h rs"
  let ?f = "\<lparr>fileName = url, fileCode = 0x270a,
              wordLength = int (length ?dv div 2),
              byteLength = int (length ?dv),
              version = sint (h_version h), shapeType = sint (h_shapeType h),
              minX = h_minX h, minY = h_minY h, maxX = h_maxX h, maxY = h_maxY h,
              minZ = h_minZ h, maxZ = h_maxZ h, minM = h_minM h, maxM = h_maxM h,
              records = map spec_decodedRecord rs\<rparr>"
  have p: "SHPParser_parse ?dv url = Some (Inr ?f)"
    using assms by (rule parse_encoded)
  have shapes: "map shape (records ?f) = map snd rs"
    by (simp add: spec_decodedRecord_def comp_def)
  have each: "shapeTypeOf (shape (records ?f ! i)) = shapeTypeOf (snd (rs ! i)) \<and>
        number (records ?f ! i) = sint (fst (rs ! i)) \<and>
        (\<forall>acc. parseRecords ?dv (byteLength ?f) (int (spec_recordOffset rs i)) acc =
               parseRecords ?dv (byteLength ?f)
                 (int (spec_recordOffset rs i) + 8 + rlength (records ?f ! i) * 2)
                 (acc @ [records ?f ! i])) \<and>
        int (spec_recordOffset rs (Suc i)) =
          int (spec_recordOffset rs i) + 8 + rlength (records ?f ! i) * 2"
    if i: "i < length rs" for i
  proof -
    let ?pre = "spec_encodeHeader h (length (concat (map spec_encodeRecord rs))) @
                concat (map spec_encodeRecord (take i rs))"
    let ?post = "concat (map spec_encodeRecord (drop (Suc i) rs))"
    have split: "?dv = ?pre @ spec_encodeRecord (rs ! i) @ ?post"
      using i by (rule encodeFile_split)
    have off: "int (length ?pre) = int (spec_recordOffset rs i)"
      by (simp add: spec_recordOffset_def)
    have v: "spec_validShape (snd (rs ! i))"
      using assms(1) i by (simp add: list_all_length)
    have len: "length ?dv =
          length ?pre + (8 + length (spec_encodeShape (snd (rs ! i)))) + length ?post"
      using arg_cong [OF split, of length] by (simp add: length_encodeRecord)
    then have "length (spec_encodeShape (snd (rs ! i))) \<le> length ?dv"
      by linarith
    then have "length (spec_encodeShape (snd (rs ! i))) div 2 \<le> length ?dv div 2"
      by (rule div_le_mono)
    with assms(2) have b: "length (spec_encodeShape (snd (rs ! i))) div 2 < 2 ^ 31"
      by linarith
    have l: "int (length ?pre) < int (length ?dv)"
      using len by linarith
    have step: "parseRecords ?dv (int (length ?dv)) (int (spec_recordOffset rs i)) acc =
          parseRecords ?dv (int (length ?dv))
            (int (spec_recordOffset rs i) + 8 + rlength (spec_decodedRecord (rs ! i)) * 2)
            (acc @ [spec_decodedRecord (rs ! i)])" for acc
      using parseRecords_step [OF v b l, of ?post acc] 
      unfolding off split [symmetric] .
    have "take (Suc i) rs = take i rs @ [rs ! i]"
      using i by (rule take_Suc_conv_app_nth)
    then have nxt: "int (spec_recordOffset rs (Suc i)) =
          int (spec_recordOffset rs i) + 8 + rlength (spec_decodedRecord (rs ! i)) * 2"
      using even_length_encodeShape [of "snd (rs ! i)"]
      by (auto simp: spec_recordOffset_def spec_decodedRecord_def length_encodeRecord
            elim!: evenE)
    show ?thesis
      using i step nxt by (simp add: spec_decodedRecord_def)
  qed
  show ?thesis
    by (rule exI [of _ ?f]) (use p shapes each in simp)
qed

theorem C6_decode_encoded_witness:
  "\<exists>f. SHPParser_parse
          (spec_encodeFile
             \<lparr>h_version = 1000, h_shapeType = 1, h_minX = 0, h_minY = 0, h_maxX = 0,
              h_maxY = 0, h_minZ = 0, h_maxZ = 0, h_minM = 0, h_maxM = 0\<rparr>
             [(1, NullShape), (2, PointShape 5 7),
              (3, MultiShape POLYGON 0 0 0 0 [0] [1, 2, 3, 4])]) [] = Some (Inr f) \<and>
       map shape (records f) =
         [NullShape, PointShape 5 7, MultiShape POLYGON 0 0 0 0 [0] [1, 2, 3, 4]]"
proof -
  let ?h = "\<lparr>h_version = 1000, h_shapeType = 1, h_minX = 0, h_minY = 0, h_maxX = 0,
              h_maxY = 0, h_minZ = 0, h_maxZ = 0, h_minM = 0, h_maxM = 0\<rparr>"
  let ?rs = "[(1, NullShape), (2, PointShape 5 7),
              (3, MultiShape POLYGON 0 0 0 0 [0] [1, 2, 3, 4])] :: (32 word \<times> SHPShape) list"
  have v: "list_all (\<lambda>r. spec_validShape (snd r)) ?rs"
    by simp
  have b: "length (spec_encodeFile ?h ?rs) div 2 < 2 ^ 31"
    by (simp add: spec_encodeFile_def length_encodeRecord)
  from C6_decode_encoded [OF v b, of "[]"] show ?thesis
    by auto
qed

section \<open>The feature assembler: geometries, bounding box, properties\<close>

lemma length_pairsOf: "length (pairsOf xs) = length xs div 2"
  by (induction xs rule: pairsOf.induct) simp_all

lemma nth_pairsOf:
  "a < length xs div 2 \<Longrightarrow> pairsOf xs ! a = (xs ! (2 * a), xs ! (2 * a + 1))"
proof (induction xs arbitrary: a rule: pairsOf.induct)
  case (1 x y zs)
  then show ?case by (cases a) simp_all
qed simp_all

lemma transPairs_slice:
  assumes "b \<le> length (pairsOf points)"
  shows "transPairs T points (2 * int a) (2 * int b) =
         mapE (\<lambda>(x, y). T x y) (take (b - a) (drop a (pairsOf points)))"
  using assms
proof (induction "b - a" arbitrary: a)
  case 0
  then show ?case by (subst transPairs.simps) simp
next
  case (Suc n)
  then have ab: "a < b" and n: "n = b - Suc a" by simp_all
  with Suc.prems have a: "a < length points div 2" by (simp add: length_pairsOf)
  then have i0: "elementAt points (2 * int a) = Some (points ! (2 * a))"
    and i1: "elementAt points (2 * int a + 1) = Some (points ! (2 * a + 1))"
    by (auto simp: elementAt_def nat_mult_distrib nat_add_distrib)
  have d: "take (b - a) (drop a (pairsOf points)) =
           pairsOf points ! a # take (b - Suc a) (drop (Suc a) (pairsOf points))"
  proof -
    have "b - a = Suc (b - Suc a)" using ab by simp
    moreover have "drop a (pairsOf points) = pairsOf points ! a # drop (Suc a) (pairsOf points)"
      using a by (simp add: length_pairsOf Cons_nth_drop_Suc)
    ultimately show ?thesis by simp
  qed
  have ih: "transPairs T points (2 * int (Suc a)) (2 * int b) =
        mapE (\<lambda>(x, y). T x y) (take (b - Suc a) (drop (Suc a) (pairsOf points)))"
    using Suc.hyps(1) [OF n Suc.prems] .
  have s: "2 * int a + 2 = 2 * int (Suc a)" by simp
  have ih': "transPairs T points (2 * int a + 2) (2 * int b) =
        mapE (\<lambda>(x, y). T x y) (take (b - Suc a) (drop (Suc a) (pairsOf points)))"
    using ih by (simp only: s)
  show ?case
    by (subst transPairs.simps) (simp add: ab i0 i1 d ih' TransCoord_def nth_pairsOf [OF a])
qed

lemma transPairs_all:
  assumes "even (length points)"
  shows "transPairs T points 0 (int (length points)) =
         mapE (\<lambda>(x, y). T x y) (pairsOf points)"
proof -
  from assms have "int (length points) = 2 * int (length (pairsOf points))"
    by (auto simp: length_pairsOf elim!: evenE)
  then show ?thesis
    using transPairs_slice [of "length (pairsOf points)" points T 0] by simp
qed

lemma length_readPoints: "readPoints dv idx n = Inr ps \<Longrightarrow> length ps = n"
  by (induction n arbitrary: idx ps) (auto simp: thenE_def split: sum.splits)

lemma parseShape_even_points:
  assumes "parseShape dv idx len = Inr (MultiShape k a b c d parts points)"
  shows "even (length points)"
proof -
  have "even (length ps)" if "parseMulti k' dv j = Inr (MultiShape k a b c d parts ps)" for k' j ps
    using that
    by (auto simp: parseMulti_def thenE_def nat_mult_distrib
          split: sum.splits if_splits dest!: length_readPoints)
  with assms show ?thesis
    by (auto simp: parseShape_def thenE_def split: sum.splits if_splits)
qed

text \<open>
  Claim C7. For a record whose shape the parser has decoded: type 1 becomes a Point with
  the one projected pair; type 3 becomes a LineString and type 8 a MultiPoint, each with
  all the coordinate pairs of \<^verbatim>\<open>points\<close> in order, every pair projected by its own call and
  \<^verbatim>\<open>parts\<close> ignored. A failure of the projection on a pair is the failure of the whole.
\<close>

theorem C7_point_line_multipoint:
  assumes "parseShape dv idx len = Inr (shape r)"
  shows "(shape r = PointShape x y \<longrightarrow>
      toFeature T recs i r =
        thenE (T x y) (\<lambda>c. Inr \<lparr>geometry = Point c, properties = elementAt recs (int i)\<rparr>)) \<and>
   (shape r = MultiShape POLYLINE a b c d parts points \<longrightarrow>
      toFeature T recs i r =
        thenE (mapE (\<lambda>(x, y). T x y) (pairsOf points))
          (\<lambda>cs. Inr \<lparr>geometry = LineString cs, properties = elementAt recs (int i)\<rparr>)) \<and>
   (shape r = MultiShape MULTIPOINT a b c d parts points \<longrightarrow>
      toFeature T recs i r =
        thenE (mapE (\<lambda>(x, y). T x y) (pairsOf points))
          (\<lambda>cs. Inr \<lparr>geometry = MultiPoint cs, properties = elementAt recs (int i)\<rparr>))"
  using parseShape_even_points [of dv idx len _ a b c d parts points] assms
  by (auto simp: toFeature_def TransCoord_def transPairs_all)

theorem C7_point_line_multipoint_witness:
  "toFeature identityProjection [] 0
     \<lparr>number = 1, rlength = 40, shape = MultiShape POLYLINE 0 0 0 0 [0] [1, 2, 3, 4]\<rparr> =
   Inr \<lparr>geometry = LineString [(1, 2), (3, 4)], properties = None\<rparr> \<and>
   toFeature identityProjection [] 0
     \<lparr>number = 1, rlength = 40, shape = MultiShape MULTIPOINT 0 0 0 0 [0] [1, 2, 3, 4]\<rparr> =
   Inr \<lparr>geometry = MultiPoint [(1, 2), (3, 4)], properties = None\<rparr> \<and>
   toFeature identityProjection [] 0 \<lparr>number = 1, rlength = 10, shape = PointShape 5 7\<rparr> =
   Inr \<lparr>geometry = Point (5, 7), properties = None\<rparr>"
proof -
  let ?l = "MultiShape POLYLINE 0 0 0 0 [0] [1, 2, 3, 4]"
  let ?m = "MultiShape MULTIPOINT 0 0 0 0 [0] [1, 2, 3, 4]"
  let ?p = "PointShape 5 7"
  have dl: "parseShape ([] @ spec_encodeShape ?l @ []) 0 40 =
            Inr (shape \<lparr>number = 1, rlength = 40, shape = ?l\<rparr>)"
    using parseShape_encoded [of 0 "[]" ?l "[]" 40] by simp
  have dm: "parseShape ([] @ spec_encodeShape ?m @ []) 0 40 =
            Inr (shape \<lparr>number = 1, rlength = 40, shape = ?m\<rparr>)"
    using parseShape_encoded [of 0 "[]" ?m "[]" 40] by simp
  have dp: "parseShape ([] @ spec_encodeShape ?p @ []) 0 10 =
            Inr (shape \<lparr>number = 1, rlength = 10, shape = ?p\<rparr>)"
    using parseShape_encoded [of 0 "[]" ?p "[]" 10] by simp
  show ?thesis
    using C7_point_line_multipoint [OF dl, of 0 0 identityProjection "[]" 0 0 0 0 0 "[0]" "[1, 2, 3, 4]"]
      C7_point_line_multipoint [OF dm, of 0 0 identityProjection "[]" 0 0 0 0 0 "[0]" "[1, 2, 3, 4]"]
      C7_point_line_multipoint [OF dp, of 5 7 identityProjection "[]" 0 0 0 0 0 "[]" "[]"]
    by (simp add: identityProjection_def elementAt_def)
qed

text \<open>
  The polygon case on part indices that lie in the point array and are not 0 after the
  first: ring \<open>k\<close> is the ring of the specification.
\<close>

lemma polygonRings_wellformed:
  assumes ev: "even (length points)"
    and rng: "\<forall>k<length parts. 0 \<le> sint (parts ! k) \<and>
                nat (sint (parts ! k)) \<le> length (pairsOf points)"
    and nz: "\<forall>k<length parts. 0 < k \<longrightarrow> parts ! k \<noteq> 0"
  shows "polygonRings T parts points p =
         mapE (\<lambda>k. mapE (\<lambda>(x, y). T x y) (spec_ring parts (pairsOf points) k))
           [p..<length parts]"
proof (induction "length parts - p" arbitrary: p)
  case 0
  then show ?case by (subst polygonRings.simps) simp
next
  case (Suc n)
  then have p: "p < length parts" and n: "n = length parts - Suc p" by simp_all
  let ?a = "nat (sint (parts ! p))"
  let ?b = "if p + 1 < length parts then nat (sint (parts ! (p + 1)))
            else length (pairsOf points)"
  have start: "sint (parts ! p) * 2 = 2 * int ?a"
    using rng p by simp
  have stop: "(case elementAt parts (int p + 1) of
                 None \<Rightarrow> int (length points)
               | Some v \<Rightarrow> if sint v = 0 then int (length points) else sint v * 2) = 2 * int ?b"
  proof (cases "p + 1 < length parts")
    case True
    then have e: "elementAt parts (int p + 1) = Some (parts ! (p + 1))"
      by (simp add: elementAt_def nat_add_distrib)
    from True nz have "parts ! (p + 1) \<noteq> 0" by simp
    then have "sint (parts ! (p + 1)) \<noteq> 0"
      by (simp add: signed_eq_0_iff)
    moreover have "0 \<le> sint (parts ! (p + 1))" using rng True by simp
    ultimately show ?thesis using True by (simp add: e)
  next
    case False
    then have "elementAt parts (int p + 1) = None"
      by (simp add: elementAt_def)
    moreover have "int (length points) = 2 * int (length (pairsOf points))"
      using ev by (auto simp: length_pairsOf elim!: evenE)
    ultimately show ?thesis using False by simp
  qed
  have b: "?b \<le> length (pairsOf points)"
    using rng by simp
  have ring: "transPairs T points (2 * int ?a) (2 * int ?b) =
              mapE (\<lambda>(x, y). T x y) (spec_ring parts (pairsOf points) p)"
    unfolding spec_ring_def Let_def by (rule transPairs_slice [OF b])
  have upt: "[p..<length parts] = p # [p + 1..<length parts]"
    using upt_conv_Cons [OF p] by (simp only: Suc_eq_plus1)
  have ih: "polygonRings T parts points (p + 1) =
            mapE (\<lambda>k. mapE (\<lambda>(x, y). T x y) (spec_ring parts (pairsOf points) k))
              [p + 1..<length parts]"
    using Suc.hyps(1) [OF n] by (simp only: Suc_eq_plus1)
  show ?case
    by (subst polygonRings.simps) (simp only: p if_True start stop ring ih upt mapE.simps)
qed

text \<open>The example of the specification: parts 0 and 4 over six points give two rings.\<close>

lemma polygon_two_rings:
  assumes "length points = 12"
  shows "toFeature identityProjection recs i
           \<lparr>number = n, rlength = l, shape = MultiShape POLYGON a b c d [0, 4] points\<rparr> =
         Inr \<lparr>geometry = Polygon [take 4 (pairsOf points), drop 4 (pairsOf points)],
              properties = elementAt recs (int i)\<rparr>"
proof -
  have l: "length (pairsOf points) = 6"
    using assms by (simp add: length_pairsOf)
  have id: "mapE (\<lambda>(x, y). identityProjection x y) ps = Inr ps" for ps
    by (induction ps) (auto simp: identityProjection_def)
  have "polygonRings identityProjection [0, 4] points 0 =
        mapE (\<lambda>k. mapE (\<lambda>(x, y). identityProjection x y) (spec_ring [0, 4] (pairsOf points) k))
          [0..<length [0, 4 :: 32 word]]"
    by (rule polygonRings_wellformed) (auto simp: assms l less_Suc_eq)
  also have "\<dots> = Inr [take 4 (pairsOf points), drop 4 (pairsOf points)]"
    by (simp add: id spec_ring_def upt_rec l)
  finally show ?thesis
    by (simp add: toFeature_def)
qed

text \<open>
  Claim C3. The claim holds on part arrays as in the two lemmas above, and fails where a
  part index after the first is 0: \<^verbatim>\<open>parts[p + 1] || points.length / 2\<close> takes the 0 for a
  missing entry. With parts 0 and 0 over two points, a record the parser decodes, the
  code gives ring 0 both points, where the points from index 0 to index 0 are none.
\<close>

theorem C3_zero_part_index:
  "parseShape (spec_encodeShape (MultiShape POLYGON 0 0 0 0 [0, 0] [1, 2, 3, 4])) 0 42 =
   Inr (MultiShape POLYGON 0 0 0 0 [0, 0] [1, 2, 3, 4]) \<and>
   toFeature identityProjection [] 0
     \<lparr>number = 1, rlength = 42, shape = MultiShape POLYGON 0 0 0 0 [0, 0] [1, 2, 3, 4]\<rparr> =
   Inr \<lparr>geometry = Polygon [[(1, 2), (3, 4)], [(1, 2), (3, 4)]], properties = None\<rparr> \<and>
   spec_ring [0, 0] (pairsOf [1, 2, 3, 4 :: float64]) 0 = [] \<and>
   spec_ring [0, 0] (pairsOf [1, 2, 3, 4 :: float64]) 1 = [(1, 2), (3, 4)]"
proof -
  let ?s = "MultiShape POLYGON 0 0 0 0 [0, 0] [1, 2, 3, 4]"
  have "parseShape ([] @ spec_encodeShape ?s @ []) 0 42 = Inr ?s"
    by (rule parseShape_encoded) simp_all
  then show ?thesis
    by (simp add: toFeature_def polygonRings.simps transPairs.simps elementAt_def
          TransCoord_def identityProjection_def spec_ring_def)
qed

lemma identityOn_nth:
  "identityOn T cs \<Longrightarrow> a < length cs \<Longrightarrow> T (fst (cs ! a)) (snd (cs ! a)) = Inr (cs ! a)"
  by (simp add: identityOn_def list_all_length)

text \<open>
  A ring loop that returns under a projection that is the identity on the pairs has cut
  the pairs from \<open>j / 2\<close> up to \<open>stop / 2\<close>, rounded up.
\<close>

lemma transPairs_identity:
  "transPairs T points j stop = Inr cs \<Longrightarrow> identityOn T (pairsOf points) \<Longrightarrow> even j \<Longrightarrow>
   cs = take (nat ((stop + 1) div 2) - nat (j div 2)) (drop (nat (j div 2)) (pairsOf points))"
proof (induction T points j stop arbitrary: cs rule: transPairs.induct)
  case (1 T points j stop)
  note T = "1.prems"(2) and ev = "1.prems"(3)
  show ?case
  proof (cases "j < stop")
    case False
    with "1.prems"(1) have "cs = []"
      by (subst (asm) transPairs.simps) simp
    moreover from False ev have "(stop + 1) div 2 \<le> j div 2"
      by (auto elim!: evenE)
    ultimately show ?thesis by simp
  next
    case True
    from "1.prems"(1) True obtain c cs' where
      c: "TransCoord T (elementAt points j) (elementAt points (j + 1)) = Inr c"
      and r: "transPairs T points (j + 2) stop = Inr cs'"
      and cs: "cs = c # cs'"
      by (subst (asm) transPairs.simps) (auto simp: thenE_def split: sum.splits)
    from c have j0: "0 \<le> j" and j1: "j + 1 < int (length points)"
      and cv: "T (points ! nat j) (points ! nat (j + 1)) = Inr c"
      by (auto simp: TransCoord_def elementAt_def split: option.splits if_splits)
    from ev j0 obtain a where a: "j = 2 * int a"
      by (metis evenE nonneg_int_cases zero_le_mult_iff zero_le_numeral
            mult_le_cancel_left_pos mult_zero_right zero_less_numeral)
    with j1 have al: "a < length points div 2" by linarith
    then have al': "a < length (pairsOf points)" by (simp add: length_pairsOf)
    have "T (fst (pairsOf points ! a)) (snd (pairsOf points ! a)) = Inr c"
      using a cv by (simp add: nth_pairsOf [OF al] nat_mult_distrib nat_add_distrib)
    with identityOn_nth [OF T al'] have ca: "c = pairsOf points ! a" by simp
    from True a have b: "a < nat ((stop + 1) div 2)" by linarith
    have "cs' = take (nat ((stop + 1) div 2) - nat ((j + 2) div 2))
                  (drop (nat ((j + 2) div 2)) (pairsOf points))"
      using "1.IH" [OF True c r T] ev by simp
    then have cs': "cs' = take (nat ((stop + 1) div 2) - Suc a) (drop (Suc a) (pairsOf points))"
      using a by (simp add: nat_add_distrib)
    have "nat ((stop + 1) div 2) - a = Suc (nat ((stop + 1) div 2) - Suc a)"
      using b by simp
    moreover have "drop a (pairsOf points) = pairsOf points ! a # drop (Suc a) (pairsOf points)"
      using al' by (simp add: Cons_nth_drop_Suc)
    ultimately show ?thesis
      using a by (simp add: cs cs' ca)
  qed
qed

lemma polygonRings_identity:
  "polygonRings T parts points p = Inr rings \<Longrightarrow> identityOn T (pairsOf points) \<Longrightarrow>
   rings = map (unprojectedRing parts (pairsOf points)) [p..<length parts]"
proof (induction T parts points p arbitrary: rings rule: polygonRings.induct)
  case (1 T parts points p)
  note T = "1.prems"(2)
  show ?case
  proof (cases "p < length parts")
    case False
    with "1.prems"(1) show ?thesis
      by (subst (asm) polygonRings.simps) simp
  next
    case True
    let ?stop = "case elementAt parts (int p + 1) of
                    None \<Rightarrow> int (length points)
                  | Some v \<Rightarrow> if sint v = 0 then int (length points) else sint v * 2"
    from "1.prems"(1) True obtain ring rings' where
      g: "transPairs T points (sint (parts ! p) * 2) ?stop = Inr ring"
      and r: "polygonRings T parts points (p + 1) = Inr rings'"
      and rs: "rings = ring # rings'"
      by (subst (asm) polygonRings.simps) (auto simp: thenE_def split: sum.splits)
    have ring0: "ring = take (nat ((?stop + 1) div 2) - nat (sint (parts ! p)))
                   (drop (nat (sint (parts ! p))) (pairsOf points))"
      using transPairs_identity [OF g T] by simp
    have ring: "ring = unprojectedRing parts (pairsOf points) p"
    proof (cases "p + 1 < length parts \<and> parts ! (p + 1) \<noteq> 0")
      case True
      then have "elementAt parts (int p + 1) = Some (parts ! (p + 1))"
        by (simp add: elementAt_def nat_add_distrib)
      moreover from True have "sint (parts ! (p + 1)) \<noteq> 0"
        by (simp add: signed_eq_0_iff)
      ultimately have "(?stop + 1) div 2 = sint (parts ! (p + 1))"
        by simp
      with True show ?thesis
        by (simp add: ring0 unprojectedRing_def)
    next
      case False
      then have "?stop = int (length points)"
        by (auto simp: elementAt_def nat_add_distrib signed_eq_0_iff)
      then have "length (pairsOf points) \<le> nat ((?stop + 1) div 2)"
        by (simp add: length_pairsOf)
      then have eq: "take (nat ((?stop + 1) div 2) - nat (sint (parts ! p)))
                   (drop (nat (sint (parts ! p))) (pairsOf points)) =
                 take (length (pairsOf points) - nat (sint (parts ! p)))
                   (drop (nat (sint (parts ! p))) (pairsOf points))"
        by simp
      show ?thesis
        unfolding ring0 unprojectedRing_def by (simp only: False if_False eq)
    qed
    have "rings' = map (unprojectedRing parts (pairsOf points)) [p + 1..<length parts]"
      using "1.IH" [OF True g r T] .
    moreover have "[p..<length parts] = p # [p + 1..<length parts]"
      using upt_conv_Cons [OF True] by simp
    ultimately show ?thesis by (simp add: rs ring)
  qed
qed

lemma toFeature_identity:
  assumes "toFeature T recs i r = Inr f" and "identityOn T (shapePositions (shape r))"
  shows "Some (geometry f) = unprojected (shape r)"
proof (cases "shape r")
  case NullShape
  with assms show ?thesis by (simp add: toFeature_def)
next
  case (PointShape x y)
  with assms show ?thesis
    by (auto simp: toFeature_def TransCoord_def identityOn_def thenE_def split: sum.splits)
next
  case (MultiShape k a b c d parts points)
  with assms(2) have T: "identityOn T (pairsOf points)" by simp
  show ?thesis
  proof (cases k)
    case POLYGON
    with assms(1) MultiShape obtain rings where
      "polygonRings T parts points 0 = Inr rings" "geometry f = Polygon rings"
      by (auto simp: toFeature_def thenE_def split: sum.splits)
    with polygonRings_identity [OF _ T, of parts 0 rings] show ?thesis
      by (simp add: MultiShape POLYGON)
  next
    case POLYLINE
    with assms(1) MultiShape obtain cs where
      g: "transPairs T points 0 (int (length points)) = Inr cs" "geometry f = LineString cs"
      by (auto simp: toFeature_def thenE_def split: sum.splits)
    have "length (pairsOf points) \<le> nat ((int (length points) + 1) div 2)"
      by (simp add: length_pairsOf)
    with transPairs_identity [OF g(1) T] g(2) show ?thesis
      by (simp add: MultiShape POLYLINE)
  next
    case MULTIPOINT
    with assms(1) MultiShape obtain cs where
      g: "transPairs T points 0 (int (length points)) = Inr cs" "geometry f = MultiPoint cs"
      by (auto simp: toFeature_def thenE_def split: sum.splits)
    have "length (pairsOf points) \<le> nat ((int (length points) + 1) div 2)"
      by (simp add: length_pairsOf)
    with transPairs_identity [OF g(1) T] g(2) show ?thesis
      by (simp add: MultiShape MULTIPOINT)
  qed
qed

lemma toFeature_properties:
  "toFeature T recs i r = Inr f \<Longrightarrow> properties f = elementAt recs (int i)"
  by (auto simp: toFeature_def thenE_def split: SHPShape.splits MultiKind.splits sum.splits)

lemma toFeature_other_records:
  "toFeature T recs i r = Inr f \<Longrightarrow>
   toFeature T recs' i' r = Inr (f\<lparr>properties := elementAt recs' (int i')\<rparr>)"
  by (auto simp: toFeature_def thenE_def split: SHPShape.splits MultiKind.splits sum.splits)

lemma forEachRecord_features:
  "forEachRecord T recs i rs = Inr fs \<Longrightarrow>
   length fs = length rs \<and>
   (\<forall>k<length rs. toFeature T recs (i + k) (rs ! k) = Inr (fs ! k))"
proof (induction rs arbitrary: i fs)
  case Nil
  then show ?case by simp
next
  case (Cons r rs)
  from Cons.prems obtain f fs' where
    f: "toFeature T recs i r = Inr f" and r: "forEachRecord T recs (i + 1) rs = Inr fs'"
    and fs: "fs = f # fs'"
    by (auto simp: thenE_def split: sum.splits)
  from Cons.IH [OF r] have l: "length fs' = length rs"
    and each: "\<And>k. k < length rs \<Longrightarrow> toFeature T recs (i + 1 + k) (rs ! k) = Inr (fs' ! k)"
    by simp_all
  show ?case
    using f l each by (auto simp: fs nth_Cons split: nat.splits)
qed

lemma forEachRecord_other_records:
  "forEachRecord T recs i rs = Inr fs \<Longrightarrow>
   \<exists>fs'. forEachRecord T recs' i rs = Inr fs' \<and> map geometry fs' = map geometry fs"
proof (induction rs arbitrary: i fs)
  case Nil
  then show ?case by simp
next
  case (Cons r rs)
  from Cons.prems obtain f fs0 where
    f: "toFeature T recs i r = Inr f" and r: "forEachRecord T recs (i + 1) rs = Inr fs0"
    and fs: "fs = f # fs0"
    by (auto simp: thenE_def split: sum.splits)
  from Cons.IH [OF r] obtain fs1 where
    "forEachRecord T recs' (i + 1) rs = Inr fs1" "map geometry fs1 = map geometry fs0"
    by blast
  then show ?case
    using toFeature_other_records [OF f, of recs' i] by (simp add: fs)
qed

lemma toGeojson_Inr:
  assumes "toGeojson T shp dbf = Inr fc"
  obtains a c fs where
    "T (minX shp) (minY shp) = Inr a" "T (maxX shp) (maxY shp) = Inr c"
    "forEachRecord T (dbfRecords dbf) 0 (records shp) = Inr fs"
    "fc = \<lparr>bbox = [fst a, snd a, fst c, snd c], features = fs\<rparr>"
  using assms
  by (auto simp: toGeojson_def TransCoord_def thenE_def split: sum.splits)

text \<open>
  Claim C8. When \<^verbatim>\<open>toGeojson\<close> returns, the bounding box is made of the projections of the
  two header corners: longitude and latitude of (minX, minY), then of (maxX, maxY). With
  a projection that is the identity on the two corners and on the coordinate pairs of
  the shapes, it is the header's box, and the geometry of every feature is the geometry
  of the shape at the same index with its coordinates as they are, in their order.
\<close>

theorem C8_bbox_from_header_corners:
  assumes "toGeojson T shp dbf = Inr fc"
  shows "(\<exists>a c. T (minX shp) (minY shp) = Inr a \<and> T (maxX shp) (maxY shp) = Inr c \<and>
                bbox fc = [fst a, snd a, fst c, snd c]) \<and>
         (identityOn T
            ((minX shp, minY shp) # (maxX shp, maxY shp) #
             concat (map (\<lambda>r. shapePositions (shape r)) (records shp))) \<longrightarrow>
            bbox fc = [minX shp, minY shp, maxX shp, maxY shp] \<and>
            length (features fc) = length (records shp) \<and>
            (\<forall>i<length (records shp).
               Some (geometry (features fc ! i)) = unprojected (shape (records shp ! i))))"
proof -
  from assms obtain a c fs where
    a: "T (minX shp) (minY shp) = Inr a" and c: "T (maxX shp) (maxY shp) = Inr c"
    and fs: "forEachRecord T (dbfRecords dbf) 0 (records shp) = Inr fs"
    and fc: "fc = \<lparr>bbox = [fst a, snd a, fst c, snd c], features = fs\<rparr>"
    by (rule toGeojson_Inr)
  have l: "length fs = length (records shp)"
    and each: "\<And>k. k < length (records shp) \<Longrightarrow>
                toFeature T (dbfRecords dbf) (0 + k) (records shp ! k) = Inr (fs ! k)"
    using forEachRecord_features [OF fs] by simp_all
  let ?all = "(minX shp, minY shp) # (maxX shp, maxY shp) #
              concat (map (\<lambda>r. shapePositions (shape r)) (records shp))"
  have "bbox fc = [minX shp, minY shp, maxX shp, maxY shp]" if "identityOn T ?all"
    using a c that by (auto simp: fc identityOn_def)
  moreover have "Some (geometry (features fc ! i)) = unprojected (shape (records shp ! i))"
    if T: "identityOn T ?all" and i: "i < length (records shp)" for i
  proof -
    from T i have "identityOn T (shapePositions (shape (records shp ! i)))"
      by (auto simp: identityOn_def list_all_iff)
    with each [OF i] show ?thesis
      using toFeature_identity [of T "dbfRecords dbf" "0 + i" "records shp ! i" "fs ! i"]
      by (simp add: fc)
  qed
  ultimately show ?thesis
    using a c l by (simp add: fc)
qed

text \<open>
  Claim C10. The attribute records do not decide whether \<^verbatim>\<open>toGeojson\<close> returns: a result for
  one table means a result with the same geometries and box for every other table, a
  shorter one included. There is one feature per shape record, in order: feature \<open>i\<close> is
  what the callback makes of shape record \<open>i\<close>, and it has \<^verbatim>\<open>dbf.records[i]\<close> as its
  properties, \<^verbatim>\<open>undefined\<close> past the end of the array.
\<close>

theorem C10_fewer_attribute_records:
  assumes "toGeojson T shp dbf = Inr fc"
  shows "length (features fc) = length (records shp) \<and>
         (\<forall>i<length (records shp).
            toFeature T (dbfRecords dbf) i (records shp ! i) = Inr (features fc ! i) \<and>
            properties (features fc ! i) =
              (if i < length (dbfRecords dbf) then Some (dbfRecords dbf ! i) else None)) \<and>
         (\<forall>dbf'. \<exists>fc'. toGeojson T shp dbf' = Inr fc' \<and>
            length (features fc') = length (records shp) \<and>
            (\<forall>i<length (records shp).
               toFeature T (dbfRecords dbf') i (records shp ! i) = Inr (features fc' ! i)) \<and>
            map geometry (features fc') = map geometry (features fc) \<and>
            bbox fc' = bbox fc)"
proof -
  from assms obtain a c fs where
    a: "T (minX shp) (minY shp) = Inr a" and c: "T (maxX shp) (maxY shp) = Inr c"
    and fs: "forEachRecord T (dbfRecords dbf) 0 (records shp) = Inr fs"
    and fc: "fc = \<lparr>bbox = [fst a, snd a, fst c, snd c], features = fs\<rparr>"
    by (rule toGeojson_Inr)
  have l: "length fs = length (records shp)"
    and each: "\<And>k. k < length (records shp) \<Longrightarrow>
                toFeature T (dbfRecords dbf) (0 + k) (records shp ! k) = Inr (fs ! k)"
    using forEachRecord_features [OF fs] by simp_all
  have feat: "toFeature T (dbfRecords dbf) i (records shp ! i) = Inr (features fc ! i)"
    if "i < length (records shp)" for i
    using each [OF that] by (simp add: fc)
  have props: "properties (features fc ! i) =
        (if i < length (dbfRecords dbf) then Some (dbfRecords dbf ! i) else None)"
    if "i < length (records shp)" for i
    using toFeature_properties [OF each [OF that]] by (simp add: fc elementAt_def)
  have other: "\<exists>fc'. toGeojson T shp dbf' = Inr fc' \<and>
            length (features fc') = length (records shp) \<and>
            (\<forall>i<length (records shp).
               toFeature T (dbfRecords dbf') i (records shp ! i) = Inr (features fc' ! i)) \<and>
            map geometry (features fc') = map geometry (features fc) \<and>
            bbox fc' = bbox fc" for dbf'
  proof -
    from forEachRecord_other_records [OF fs, of "dbfRecords dbf'"] obtain fs' where
      fs': "forEachRecord T (dbfRecords dbf') 0 (records shp) = Inr fs'"
      and g: "map geometry fs' = map geometry fs"
      by blast
    have "length fs' = length (records shp)"
      and "\<And>k. k < length (records shp) \<Longrightarrow>
             toFeature T (dbfRecords dbf') (0 + k) (records shp ! k) = Inr (fs' ! k)"
      using forEachRecord_features [OF fs'] by simp_all
    then show ?thesis
      using a c fs' g by (simp add: toGeojson_def TransCoord_def fc)
  qed
  show ?thesis
    using l feat props other by (simp add: fc)
qed

lemma example_toGeojson:
  assumes "identityOn T
             [(0x405E000000000000, 0x4038000000000000), (0x405E600000000000, 0x4039000000000000),
              (0x405E600000000000, 0x4038000000000000)]"
  shows "toGeojson T example_shp (example_dbf recs) =
   Inr \<lparr>bbox = [0x405E000000000000, 0x4038000000000000, 0x405E600000000000, 0x4039000000000000],
        features =
          [\<lparr>geometry = Point (0x405E600000000000, 0x4039000000000000),
            properties = elementAt recs 0\<rparr>,
           \<lparr>geometry = Point (0x405E000000000000, 0x4038000000000000),
            properties = elementAt recs 1\<rparr>,
           \<lparr>geometry = LineString [(0x405E000000000000, 0x4038000000000000),
                                   (0x405E600000000000, 0x4039000000000000)],
            properties = elementAt recs 2\<rparr>,
           \<lparr>geometry = Polygon [[(0x405E000000000000, 0x4038000000000000),
                                  (0x405E600000000000, 0x4038000000000000),
                                  (0x405E600000000000, 0x4039000000000000),
                                  (0x405E000000000000, 0x4038000000000000)]],
            properties = elementAt recs 3\<rparr>]\<rparr>"
  using assms
  by (simp add: toGeojson_def example_shp_def example_dbf_def toFeature_def TransCoord_def
        identityOn_def polygonRings.simps transPairs.simps elementAt_def [of "_ :: float64 list"]
        elementAt_def [of "_ :: 32 word list"])

theorem C8_bbox_from_header_corners_witness:
  "\<exists>fc. toGeojson finiteProjection example_shp (example_dbf []) = Inr fc \<and>
        finiteProjection 0x7FF8000000000000 0 = Inl CoordinatesNotFinite \<and>
        bbox fc = [minX example_shp, minY example_shp, maxX example_shp, maxY example_shp] \<and>
        bbox fc = [0x405E000000000000, 0x4038000000000000,
                   0x405E600000000000, 0x4039000000000000] \<and>
        map (\<lambda>f. Some (geometry f)) (features fc) =
          map (\<lambda>r. unprojected (shape r)) (records example_shp) \<and>
        map geometry (features fc) =
          [Point (0x405E600000000000, 0x4039000000000000),
           Point (0x405E000000000000, 0x4038000000000000),
           LineString [(0x405E000000000000, 0x4038000000000000),
                       (0x405E600000000000, 0x4039000000000000)],
           Polygon [[(0x405E000000000000, 0x4038000000000000),
                     (0x405E600000000000, 0x4038000000000000),
                     (0x405E600000000000, 0x4039000000000000),
                     (0x405E000000000000, 0x4038000000000000)]]]"
proof -
  let ?fc = "\<lparr>bbox = [0x405E000000000000, 0x4038000000000000,
                      0x405E600000000000, 0x4039000000000000],
        features =
          [\<lparr>geometry = Point (0x405E600000000000, 0x4039000000000000),
            properties = elementAt [] 0\<rparr>,
           \<lparr>geometry = Point (0x405E000000000000, 0x4038000000000000),
            properties = elementAt [] 1\<rparr>,
           \<lparr>geometry = LineString [(0x405E000000000000, 0x4038000000000000),
                                   (0x405E600000000000, 0x4039000000000000)],
            properties = elementAt [] 2\<rparr>,
           \<lparr>geometry = Polygon [[(0x405E000000000000, 0x4038000000000000),
                                  (0x405E600000000000, 0x4038000000000000),
                                  (0x405E600000000000, 0x4039000000000000),
                                  (0x405E000000000000, 0x4038000000000000)]],
            properties = elementAt [] 3\<rparr>]\<rparr> :: FeatureCollection"
  have e: "toGeojson finiteProjection example_shp (example_dbf []) = Inr ?fc"
    by (rule example_toGeojson) (simp add: identityOn_def finiteProjection_def)
  have T: "identityOn finiteProjection
             ((minX example_shp, minY example_shp) # (maxX example_shp, maxY example_shp) #
              concat (map (\<lambda>r. shapePositions (shape r)) (records example_shp)))"
    by (simp add: identityOn_def finiteProjection_def example_shp_def)
  from C8_bbox_from_header_corners [OF e, THEN conjunct2, rule_format, OF T]
  have b: "bbox ?fc = [minX example_shp, minY example_shp, maxX example_shp, maxY example_shp]"
    by blast
  have m: "map (\<lambda>f. Some (geometry f)) (features ?fc) =
           map (\<lambda>r. unprojected (shape r)) (records example_shp)"
    by (simp add: example_shp_def unprojectedRing_def)
  show ?thesis
    by (intro exI [of _ ?fc] conjI e b m) (simp_all add: finiteProjection_def)
qed

theorem C10_fewer_attribute_records_witness:
  "\<exists>fc. toGeojson identityProjection example_shp
           (example_dbf [[[0x6E, 0x61, 0x6D, 0x65] \<mapsto> StringValue [0x54]]]) = Inr fc \<and>
        length (features fc) = length (records example_shp) \<and>
        length (records example_shp) = 4 \<and>
        toFeature identityProjection [[[0x6E, 0x61, 0x6D, 0x65] \<mapsto> StringValue [0x54]]] 1
          (records example_shp ! 1) = Inr (features fc ! 1) \<and>
        geometry (features fc ! 0) = Point (0x405E600000000000, 0x4039000000000000) \<and>
        geometry (features fc ! 1) = Point (0x405E000000000000, 0x4038000000000000) \<and>
        properties (features fc ! 0) = Some [[0x6E, 0x61, 0x6D, 0x65] \<mapsto> StringValue [0x54]] \<and>
        properties (features fc ! 1) = None \<and>
        properties (features fc ! 3) = None"
proof -
  let ?recs = "[[[0x6E, 0x61, 0x6D, 0x65] \<mapsto> StringValue [0x54]]] :: (jsstring \<rightharpoonup> DBFValue) list"
  let ?fc = "\<lparr>bbox = [0x405E000000000000, 0x4038000000000000,
                      0x405E600000000000, 0x4039000000000000],
        features =
          [\<lparr>geometry = Point (0x405E600000000000, 0x4039000000000000),
            properties = elementAt ?recs 0\<rparr>,
           \<lparr>geometry = Point (0x405E000000000000, 0x4038000000000000),
            properties = elementAt ?recs 1\<rparr>,
           \<lparr>geometry = LineString [(0x405E000000000000, 0x4038000000000000),
                                   (0x405E600000000000, 0x4039000000000000)],
            properties = elementAt ?recs 2\<rparr>,
           \<lparr>geometry = Polygon [[(0x405E000000000000, 0x4038000000000000),
                                  (0x405E600000000000, 0x4038000000000000),
                                  (0x405E600000000000, 0x4039000000000000),
                                  (0x405E000000000000, 0x4038000000000000)]],
            properties = elementAt ?recs 3\<rparr>]\<rparr> :: FeatureCollection"
  have e: "toGeojson identityProjection example_shp (example_dbf ?recs) = Inr ?fc"
    by (rule example_toGeojson) (simp add: identityOn_def identityProjection_def)
  have d: "dbfRecords (example_dbf ?recs) = ?recs"
    by (simp add: example_dbf_def)
  have n: "length (records example_shp) = 4"
    by (simp add: example_shp_def)
  from C10_fewer_attribute_records [OF e] have
    l: "length (features ?fc) = length (records example_shp)"
    and f: "\<forall>i<length (records example_shp).
          toFeature identityProjection (dbfRecords (example_dbf ?recs)) i
            (records example_shp ! i) = Inr (features ?fc ! i)"
    by blast+
  from f n have f1: "toFeature identityProjection ?recs 1 (records example_shp ! 1) =
                     Inr (features ?fc ! 1)"
    unfolding d by simp
  show ?thesis
    by (intro exI [of _ ?fc] conjI e l n f1) (simp_all add: elementAt_def)
qed

section \<open>The attribute-table parser: record count and field walks\<close>

text \<open>Over the empty string every step of the walk counts 1.\<close>

lemma walk_exhausted: "walk [] offset limit z count = z + (limit - count)"
proof (induction "limit - count" arbitrary: z count)
  case 0
  then show ?case by (subst walk.simps) simp
next
  case (Suc n)
  then have "n = limit - (count + 1)" "count < limit" by simp_all
  with Suc.hyps(1) [of "count + 1" "z + 1"] show ?case
    by (subst walk.simps) (simp add: widthAt_def)
qed

text \<open>The loop over the field names leaves the response header empty.\<close>

lemma fieldNames_exhausts: "snd (fieldNames h offset cs) = []"
proof (induction h offset cs rule: fieldNames.induct)
  case (1 h offset cs)
  then show ?case
    by (subst fieldNames.simps) (simp add: Let_def)
qed

lemma length_parseRecordsLoop:
  "length (parseRecordsLoop h offset flds n rest recs) = length recs + n"
  by (induction n arbitrary: rest recs) (simp_all split: prod.splits)

lemma parseFields_names_irrelevant:
  "parseFields dv cs idx ni flds = Inr (fl, j) \<Longrightarrow>
   \<exists>fl'. parseFields dv cs' idx ni' flds' = Inr (fl', j)"
proof (induction dv cs idx ni flds arbitrary: ni' flds' rule: parseFields.induct)
  case (1 dv cs idx ni flds)
  from "1.prems" obtain na ty fl0 wa sf ix nx where
    r: "readNameArray dv idx 10 = Inr na" "getUint8 dv (idx + 11) = Inr ty"
       "getUint8 dv (idx + 16) = Inr fl0" "getUint8 dv (idx + 20) = Inr wa"
       "getUint8 dv (idx + 23) = Inr sf" "getUint8 dv (idx + 31) = Inr ix"
       "getUint8 dv (idx + 32) = Inr nx"
    by (subst (asm) parseFields.simps) (auto simp: thenE_def split: sum.splits)
  show ?case
  proof (cases "nx = 0x0D")
    case True
    with "1.prems" r have "j = idx + 32"
      by (subst (asm) parseFields.simps) simp
    with True r show ?thesis
      by (subst parseFields.simps) simp
  next
    case False
    with "1.prems" r have
      "parseFields dv cs (idx + 32) (ni + 1)
         (flds @ [\<lparr>name = (if ni < length cs then Some (cs ! ni) else None),
                    ftype = [word_of_int ty], fieldLength = fl0, workAreaId = wa,
                    setFieldFlag = sf, indexFieldFlag = ix\<rparr>]) = Inr (fl, j)"
      by (subst (asm) parseFields.simps) simp
    from "1.IH" [OF r False this] False r show ?thesis
      by (subst parseFields.simps) simp
  qed
qed

text \<open>
  Claim C9, as amended. The count is read with \<^verbatim>\<open>getInt32\<close>, as a signed number, and the loop
  \<^verbatim>\<open>for (let i = 0; i < dbf.numberOfRecords; i++)\<close> makes one record per turn. So when
  \<^verbatim>\<open>DBFParser.parse\<close> returns and the count is not negative, the number of attribute records
  is that count; for a negative count there is no record. Neither the count nor the
  return depends on the decoded text or the encoding: with any other text, of any length,
  the parse returns as many records.
\<close>

theorem C9_record_count:
  assumes "DBFParser_parse dv src response encoding = Inr dbf"
  shows "(0 \<le> numberOfRecords dbf \<longrightarrow> int (length (dbfRecords dbf)) = numberOfRecords dbf) \<and>
         (numberOfRecords dbf < 0 \<longrightarrow> dbfRecords dbf = []) \<and>
         (\<forall>response' encoding'. \<exists>dbf'.
            DBFParser_parse dv src response' encoding' = Inr dbf' \<and>
            numberOfRecords dbf' = numberOfRecords dbf \<and>
            length (dbfRecords dbf') = length (dbfRecords dbf))"
proof -
  from assms obtain ver y m d nrec bih bir itr enc mdx ldi where
    r: "getInt8 dv 0 = Inr ver" "getUint8 dv 1 = Inr y" "getUint8 dv 2 = Inr m"
       "getUint8 dv 3 = Inr d" "getInt32 dv 4 True = Inr nrec" "getInt16 dv 8 True = Inr bih"
       "getInt16 dv 10 True = Inr bir" "getUint8 dv 14 = Inr itr" "getUint8 dv 15 = Inr enc"
       "getUint8 dv 28 = Inr mdx" "getUint8 dv 29 = Inr ldi"
    unfolding DBFParser_parse_def
    by (auto simp: thenE_def split: sum.splits)
  obtain h0 off where ph: "prepareHeader response (if testBig5 encoding then 2 else 3) = (h0, off)"
    by (cases "prepareHeader response (if testBig5 encoding then 2 else 3)")
  obtain cs h where fn: "fieldNames h0 off [] = (cs, h)"
    by (cases "fieldNames h0 off []")
  from assms r ph fn obtain flds idx where
    pf: "parseFields dv cs 32 0 [] = Inr (flds, idx)"
    and dbf: "numberOfRecords dbf = nrec"
      "dbfRecords dbf = parseRecordsLoop h off flds (nat nrec) (last (splitCR response)) []"
    unfolding DBFParser_parse_def
    by (auto simp: thenE_def split: sum.splits)
  have n: "int (length (dbfRecords dbf)) = numberOfRecords dbf" if "0 \<le> numberOfRecords dbf"
    using that by (simp add: dbf length_parseRecordsLoop)
  have z: "dbfRecords dbf = []" if "numberOfRecords dbf < 0"
    using that by (simp add: dbf)
  have "\<exists>dbf'. DBFParser_parse dv src response' encoding' = Inr dbf' \<and>
            numberOfRecords dbf' = numberOfRecords dbf \<and>
            length (dbfRecords dbf') = length (dbfRecords dbf)" for response' encoding'
  proof -
    obtain h0' off' where
      ph': "prepareHeader response' (if testBig5 encoding' then 2 else 3) = (h0', off')"
      by (cases "prepareHeader response' (if testBig5 encoding' then 2 else 3)")
    obtain cs' h' where fn': "fieldNames h0' off' [] = (cs', h')"
      by (cases "fieldNames h0' off' []")
    from parseFields_names_irrelevant [OF pf, of cs' 0 "[]"] obtain flds' where
      pf': "parseFields dv cs' 32 0 [] = Inr (flds', idx)"
      by blast
    show ?thesis
      unfolding DBFParser_parse_def
      by (simp add: r ph' fn' pf' dbf length_parseRecordsLoop)
  qed
  with n z show ?thesis by blast
qed

lemmas dataview_defs =
  getUint8_def getInt8_def getInt16_def getInt32_def bytesAt_def word16le_def word32le_def

lemmas string_defs =
  removeNUL_def trim_def isWhiteSpace_def testScientific_def isDigit_def widthAt_def
  escapeGroups_def isUnreserved_def propertyKey_def assignProperty_def

lemma values_prepareHeader:
  "prepareHeader values_text 2 =
     ([0x4E, 0x41, 0x4D, 0x45, 0, 0, 0, 0, 0, 0, 0, 0x43, 0, 0, 0, 0, 0x04,
       0, 0, 0, 0, 0, 0, 0, 0, 0, 0, 0, 0, 0, 0, 0], 2)"
  by (simp add: prepareHeader_def values_text_def)

lemma values_last:
  "last (splitCR values_text) = [0x20, 0x4E2D, 0x6587, 0x20, 0x61, 0x62, 0x63, 0x64, 0x1A]"
  by (simp add: values_text_def)

lemma values_fieldNames:
  "fieldNames [0x4E, 0x41, 0x4D, 0x45, 0, 0, 0, 0, 0, 0, 0, 0x43, 0, 0, 0, 0, 0x04,
       0, 0, 0, 0, 0, 0, 0, 0, 0, 0, 0, 0, 0, 0, 0] 2 [] = ([[0x4E, 0x41, 0x4D, 0x45]], [])"
  by (simp add: fieldNames.simps removeNUL_def)

lemma readNameArray_in_range:
  "0 \<le> idx \<Longrightarrow> idx + int n \<le> int (length dv) \<Longrightarrow> \<exists>bs. readNameArray dv idx n = Inr bs"
proof (induction n arbitrary: idx)
  case 0
  then show ?case by simp
next
  case (Suc n)
  then have "\<exists>bs. readNameArray dv (idx + 1) n = Inr bs"
    by (intro Suc.IH) simp_all
  moreover from Suc.prems have "\<exists>b. getUint8 dv idx = Inr b"
    by (simp add: getUint8_def bytesAt_def)
  ultimately show ?case by auto
qed

lemma values_parseFields:
  "parseFields values_bytes [[0x4E, 0x41, 0x4D, 0x45]] 32 0 [] =
     Inr ([\<lparr>name = Some [0x4E, 0x41, 0x4D, 0x45], ftype = [0x43], fieldLength = 4,
            workAreaId = 0, setFieldFlag = 0, indexFieldFlag = 0\<rparr>], 64)"
proof -
  obtain bs where "readNameArray values_bytes 32 10 = Inr bs"
    using readNameArray_in_range [of 32 10 values_bytes] by (auto simp: values_bytes_def)
  then show ?thesis
    by (subst parseFields.simps) (simp add: values_bytes_def dataview_defs)
qed

lemma values_records:
  "parseRecordsLoop [] 2
     [\<lparr>name = Some [0x4E, 0x41, 0x4D, 0x45], ftype = [0x43], fieldLength = 4,
            workAreaId = 0, setFieldFlag = 0, indexFieldFlag = 0\<rparr>] (nat 2)
     [0x20, 0x4E2D, 0x6587, 0x20, 0x61, 0x62, 0x63, 0x64, 0x1A] [] =
   [[[0x4E, 0x41, 0x4D, 0x45] \<mapsto> StringValue [0x4E2D, 0x6587, 0x20, 0x61]],
    [[0x4E, 0x41, 0x4D, 0x45] \<mapsto> StringValue [0x63, 0x64, 0x1A]]]"
proof -
  have n: "nat 2 = Suc (Suc 0)" by simp
  show ?thesis
    unfolding n by (simp add: walk_exhausted string_defs)
qed

lemma values_header:
  "getInt8 values_bytes 0 = Inr 3" "getUint8 values_bytes 1 = Inr 124"
  "getUint8 values_bytes 2 = Inr 1" "getUint8 values_bytes 3 = Inr 1"
  "getInt32 values_bytes 4 True = Inr 2" "getInt16 values_bytes 8 True = Inr 65"
  "getInt16 values_bytes 10 True = Inr 5" "getUint8 values_bytes 14 = Inr 0"
  "getUint8 values_bytes 15 = Inr 0" "getUint8 values_bytes 28 = Inr 0"
  "getUint8 values_bytes 29 = Inr 0"
  by (simp_all add: values_bytes_def dataview_defs)

lemma values_parse:
  "DBFParser_parse values_bytes [] values_text big5 =
   Inr \<lparr>dbfFileName = [], dbfVersion = 3, year = 2024, month = 1, day = 1,
        numberOfRecords = 2, bytesInHeader = 65, bytesInRecord = 5,
        incompleteTransation = 0, encryptionFlag = 0, mdxFlag = 0, languageDriverId = 0,
        dbfFields = [\<lparr>name = Some [0x4E, 0x41, 0x4D, 0x45], ftype = [0x43], fieldLength = 4,
                      workAreaId = 0, setFieldFlag = 0, indexFieldFlag = 0\<rparr>],
        fieldpos = 65,
        dbfRecords =
          [[[0x4E, 0x41, 0x4D, 0x45] \<mapsto> StringValue [0x4E2D, 0x6587, 0x20, 0x61]],
           [[0x4E, 0x41, 0x4D, 0x45] \<mapsto> StringValue [0x63, 0x64, 0x1A]]]\<rparr>"
proof -
  have b: "testBig5 big5" by (simp add: big5_def)
  show ?thesis
    unfolding DBFParser_parse_def
    by (simp only: values_header thenE_simps b if_True values_prepareHeader values_fieldNames
          values_parseFields values_last values_records prod.case) simp
qed

lemma values_spec:
  "spec_fieldValue [0x4E2D, 0x6587, 0x20, 0x61, 0x62, 0x63, 0x64, 0x1A] 2 4 = [0x4E2D, 0x6587]"
  "spec_fieldValue [0x61, 0x62, 0x63, 0x64, 0x1A] 2 4 = [0x61, 0x62, 0x63, 0x64]"
  by (simp_all add: spec_fieldValue_def walk.simps string_defs)

text \<open>
  In the record body the walk runs over the exhausted response header, so every field
  takes \<^verbatim>\<open>fieldLength\<close> characters of the text, whatever the characters are.
\<close>

lemma parseRecordFields_exhausted:
  "parseRecordFields [] offset (field # fs) rest rcd =
   parseRecordFields [] offset fs (drop (nat (fieldLength field)) rest)
     (assignProperty rcd (propertyKey (name field))
        (let rawValue = trim (removeNUL (take (nat (fieldLength field)) rest))
         in if testScientific rawValue then NumberValue rawValue else StringValue rawValue))"
  by (simp add: walk_exhausted Let_def)

text \<open>
  Claim C1. On the table with the Big5 values the walk of the record body does not look at
  the record text: the first value is cut after four characters, not after the two that
  fill the four bytes, and the second record starts two characters late. The walk over
  the record text gives the values the file holds.
\<close>

theorem C1_record_walk_reads_header:
  "DBFParser_parse values_bytes [] values_text big5 =
   Inr \<lparr>dbfFileName = [], dbfVersion = 3, year = 2024, month = 1, day = 1,
        numberOfRecords = 2, bytesInHeader = 65, bytesInRecord = 5,
        incompleteTransation = 0, encryptionFlag = 0, mdxFlag = 0, languageDriverId = 0,
        dbfFields = [\<lparr>name = Some [0x4E, 0x41, 0x4D, 0x45], ftype = [0x43], fieldLength = 4,
                      workAreaId = 0, setFieldFlag = 0, indexFieldFlag = 0\<rparr>],
        fieldpos = 65,
        dbfRecords =
          [[[0x4E, 0x41, 0x4D, 0x45] \<mapsto> StringValue [0x4E2D, 0x6587, 0x20, 0x61]],
           [[0x4E, 0x41, 0x4D, 0x45] \<mapsto> StringValue [0x63, 0x64, 0x1A]]]\<rparr> \<and>
   last (splitCR values_text) = [0x20, 0x4E2D, 0x6587, 0x20, 0x61, 0x62, 0x63, 0x64, 0x1A] \<and>
   spec_fieldValue [0x4E2D, 0x6587, 0x20, 0x61, 0x62, 0x63, 0x64, 0x1A] 2 4 = [0x4E2D, 0x6587] \<and>
   spec_fieldValue [0x61, 0x62, 0x63, 0x64, 0x1A] 2 4 = [0x61, 0x62, 0x63, 0x64]"
  using values_parse values_last values_spec by simp

lemma names_prepareHeader:
  "prepareHeader names_text 2 =
     ([0x540D, 0x7A31, 0, 0, 0, 0, 0, 0, 0, 0x43, 0, 0, 0, 0, 0x04,
       0, 0, 0, 0, 0, 0, 0, 0, 0, 0, 0, 0, 0, 0, 0], 2)"
  by (simp add: prepareHeader_def names_text_def)

lemma names_last: "last (splitCR names_text) = [0x1A]"
  by (simp add: names_text_def)

lemma names_fieldNames:
  "fieldNames [0x540D, 0x7A31, 0, 0, 0, 0, 0, 0, 0, 0x43, 0, 0, 0, 0, 0x04,
       0, 0, 0, 0, 0, 0, 0, 0, 0, 0, 0, 0, 0, 0, 0] 2 [] = ([[0x540D, 0x7A31, 0x43]], [])"
  by (simp add: fieldNames.simps removeNUL_def)

lemma names_parseFields:
  "parseFields names_bytes [[0x540D, 0x7A31, 0x43]] 32 0 [] =
     Inr ([\<lparr>name = Some [0x540D, 0x7A31, 0x43], ftype = [0x43], fieldLength = 4,
            workAreaId = 0, setFieldFlag = 0, indexFieldFlag = 0\<rparr>], 64)"
proof -
  obtain bs where "readNameArray names_bytes 32 10 = Inr bs"
    using readNameArray_in_range [of 32 10 names_bytes] by (auto simp: names_bytes_def)
  then show ?thesis
    by (subst parseFields.simps) (simp add: names_bytes_def dataview_defs)
qed

lemma names_header:
  "getInt8 names_bytes 0 = Inr 3" "getUint8 names_bytes 1 = Inr 124"
  "getUint8 names_bytes 2 = Inr 1" "getUint8 names_bytes 3 = Inr 1"
  "getInt32 names_bytes 4 True = Inr 0" "getInt16 names_bytes 8 True = Inr 65"
  "getInt16 names_bytes 10 True = Inr 5" "getUint8 names_bytes 14 = Inr 0"
  "getUint8 names_bytes 15 = Inr 0" "getUint8 names_bytes 28 = Inr 0"
  "getUint8 names_bytes 29 = Inr 0"
  by (simp_all add: names_bytes_def dataview_defs)

lemma names_parse:
  "DBFParser_parse names_bytes [] names_text big5 =
   Inr \<lparr>dbfFileName = [], dbfVersion = 3, year = 2024, month = 1, day = 1,
        numberOfRecords = 0, bytesInHeader = 65, bytesInRecord = 5,
        incompleteTransation = 0, encryptionFlag = 0, mdxFlag = 0, languageDriverId = 0,
        dbfFields = [\<lparr>name = Some [0x540D, 0x7A31, 0x43], ftype = [0x43], fieldLength = 4,
                      workAreaId = 0, setFieldFlag = 0, indexFieldFlag = 0\<rparr>],
        fieldpos = 65, dbfRecords = []\<rparr>"
proof -
  have b: "testBig5 big5" by (simp add: big5_def)
  show ?thesis
    unfolding DBFParser_parse_def
    by (simp only: names_header thenE_simps b if_True names_prepareHeader names_fieldNames
          names_parseFields names_last prod.case) simp
qed

lemma names_spec:
  "spec_fieldName (fst (prepareHeader names_text 2)) 2 = [0x540D, 0x7A31]"
  by (simp add: names_prepareHeader spec_fieldName_def walk.simps string_defs)

text \<open>
  Claim C2. On the table with the Big5 field name the name is the first ten characters
  of the header text without NUL, which takes in the type character \<^verbatim>\<open>C\<close> behind the name;
  the count the walk has computed, eight, is not used.
\<close>

theorem C2_field_name_slice:
  "DBFParser_parse names_bytes [] names_text big5 =
   Inr \<lparr>dbfFileName = [], dbfVersion = 3, year = 2024, month = 1, day = 1,
        numberOfRecords = 0, bytesInHeader = 65, bytesInRecord = 5,
        incompleteTransation = 0, encryptionFlag = 0, mdxFlag = 0, languageDriverId = 0,
        dbfFields = [\<lparr>name = Some [0x540D, 0x7A31, 0x43], ftype = [0x43], fieldLength = 4,
                      workAreaId = 0, setFieldFlag = 0, indexFieldFlag = 0\<rparr>],
        fieldpos = 65, dbfRecords = []\<rparr> \<and>
   spec_fieldName (fst (prepareHeader names_text 2)) 2 = [0x540D, 0x7A31]"
  using names_parse names_spec by simp

theorem C9_record_count_witness:
  "\<exists>d d'. DBFParser_parse values_bytes [] values_text big5 = Inr d \<and>
          numberOfRecords d = 2 \<and> int (length (dbfRecords d)) = numberOfRecords d \<and>
          DBFParser_parse values_bytes [] [] [] = Inr d' \<and>
          length (dbfRecords d') = length (dbfRecords d)"
proof -
  let ?d = "\<lparr>dbfFileName = [], dbfVersion = 3, year = 2024, month = 1, day = 1,
        numberOfRecords = 2, bytesInHeader = 65, bytesInRecord = 5,
        incompleteTransation = 0, encryptionFlag = 0, mdxFlag = 0, languageDriverId = 0,
        dbfFields = [\<lparr>name = Some [0x4E, 0x41, 0x4D, 0x45], ftype = [0x43], fieldLength = 4,
                      workAreaId = 0, setFieldFlag = 0, indexFieldFlag = 0\<rparr>],
        fieldpos = 65,
        dbfRecords =
          [[[0x4E, 0x41, 0x4D, 0x45] \<mapsto> StringValue [0x4E2D, 0x6587, 0x20, 0x61]],
           [[0x4E, 0x41, 0x4D, 0x45] \<mapsto> StringValue [0x63, 0x64, 0x1A]]]\<rparr>"
  have p: "DBFParser_parse values_bytes [] values_text big5 = Inr ?d"
    by (rule values_parse)
  have n: "0 \<le> numberOfRecords ?d" by simp
  from C9_record_count [OF p] n have
    c: "int (length (dbfRecords ?d)) = numberOfRecords ?d"
    and o: "\<exists>d'. DBFParser_parse values_bytes [] [] [] = Inr d' \<and>
               numberOfRecords d' = numberOfRecords ?d \<and>
               length (dbfRecords d') = length (dbfRecords ?d)"
    by blast+
  from o obtain d' where "DBFParser_parse values_bytes [] [] [] = Inr d'"
    "length (dbfRecords d') = length (dbfRecords ?d)" by blast
  with p c show ?thesis
    by (intro exI [of _ ?d] exI [of _ d']) simp
qed

lemma count_prepareHeader:
  "prepareHeader count_text 3 =
     ([0x4E, 0x41, 0x4D, 0x45, 0, 0, 0, 0, 0, 0, 0, 0x43, 0, 0, 0, 0, 0x04,
       0, 0, 0, 0, 0, 0, 0, 0, 0, 0, 0, 0, 0, 0, 0], 2)"
  by (simp add: prepareHeader_def count_text_def)

lemma count_parseFields:
  "parseFields count_bytes [[0x4E, 0x41, 0x4D, 0x45]] 32 0 [] =
     Inr ([\<lparr>name = Some [0x4E, 0x41, 0x4D, 0x45], ftype = [0x43], fieldLength = 4,
            workAreaId = 0, setFieldFlag = 0, indexFieldFlag = 0\<rparr>], 64)"
proof -
  obtain bs where "readNameArray count_bytes 32 10 = Inr bs"
    using readNameArray_in_range [of 32 10 count_bytes] by (auto simp: count_bytes_def)
  then show ?thesis
    by (subst parseFields.simps) (simp add: count_bytes_def dataview_defs)
qed

lemma count_header:
  "getInt8 count_bytes 0 = Inr 3" "getUint8 count_bytes 1 = Inr 124"
  "getUint8 count_bytes 2 = Inr 1" "getUint8 count_bytes 3 = Inr 1"
  "getInt32 count_bytes 4 True = Inr (- 1)" "getInt16 count_bytes 8 True = Inr 65"
  "getInt16 count_bytes 10 True = Inr 5" "getUint8 count_bytes 14 = Inr 0"
  "getUint8 count_bytes 15 = Inr 0" "getUint8 count_bytes 28 = Inr 0"
  "getUint8 count_bytes 29 = Inr 0"
  by (simp_all add: count_bytes_def dataview_defs)

lemma count_parse:
  "DBFParser_parse count_bytes [] count_text latin1 =
   Inr \<lparr>dbfFileName = [], dbfVersion = 3, year = 2024, month = 1, day = 1,
        numberOfRecords = - 1, bytesInHeader = 65, bytesInRecord = 5,
        incompleteTransation = 0, encryptionFlag = 0, mdxFlag = 0, languageDriverId = 0,
        dbfFields = [\<lparr>name = Some [0x4E, 0x41, 0x4D, 0x45], ftype = [0x43], fieldLength = 4,
                      workAreaId = 0, setFieldFlag = 0, indexFieldFlag = 0\<rparr>],
        fieldpos = 65, dbfRecords = []\<rparr>"
proof -
  have b: "\<not> testBig5 latin1" by (simp add: latin1_def)
  show ?thesis
    unfolding DBFParser_parse_def
    by (simp only: count_header thenE_simps b if_False count_prepareHeader values_fieldNames
          count_parseFields prod.case) simp
qed

text \<open>
  Claim C9 as it is written fails on the table whose count bytes are all \<^verbatim>\<open>FF\<close>: the parse
  returns, the count it has read is -1, and there is no record.
\<close>

theorem C9_negative_count_counterexample:
  "DBFParser_parse count_bytes [] count_text latin1 =
   Inr \<lparr>dbfFileName = [], dbfVersion = 3, year = 2024, month = 1, day = 1,
        numberOfRecords = - 1, bytesInHeader = 65, bytesInRecord = 5,
        incompleteTransation = 0, encryptionFlag = 0, mdxFlag = 0, languageDriverId = 0,
        dbfFields = [\<lparr>name = Some [0x4E, 0x41, 0x4D, 0x45], ftype = [0x43], fieldLength = 4,
                      workAreaId = 0, setFieldFlag = 0, indexFieldFlag = 0\<rparr>],
        fieldpos = 65, dbfRecords = []\<rparr> \<and>
   (case DBFParser_parse count_bytes [] count_text latin1 of
      Inl e \<Rightarrow> False
    | Inr d \<Rightarrow> int (length (dbfRecords d)) \<noteq> numberOfRecords d)"
  by (simp add: count_parse)

end
